theory Spec2Isabelle
  imports
    Main
    "HOL-Library.Product_Lexorder"
    "HOL-Library.Char_ord"
    "HOL-Library.List_Lexorder"
    "HOL-Library.Multiset"
begin

section \<open>Exceptions\<close>

text \<open>
  The exceptions the grouping and faceting code of \<^verbatim>\<open>restui/models/mappings.py\<close> can
  meet: the negative-index assertion of a query set's slicing, \<^verbatim>\<open>DoesNotExist\<close> of
  \<^verbatim>\<open>latest()\<close> on an empty selection, \<^verbatim>\<open>KeyError\<close> of a dictionary read, and the
  \<^verbatim>\<open>TypeError\<close> of comparing \<^verbatim>\<open>None\<close> while sorting.
\<close>

datatype error = AssertionError | DoesNotExist | KeyError | TypeError

section \<open>Query primitives of the storage layer\<close>

text \<open>
  \<^verbatim>\<open>qs[start:stop]\<close> on a query set: a negative bound fails the assertion
  "Negative indexing is not supported."; otherwise the positions from \<open>start\<close>
  (default 0) up to, not including, \<open>stop\<close> (default: the end) are selected.
\<close>

definition qs_getitem :: "'a list \<Rightarrow> int option \<Rightarrow> int option \<Rightarrow> error + 'a list" where
  "qs_getitem xs start stop =
     (if (case start of None \<Rightarrow> False | Some a \<Rightarrow> a < 0) \<or>
         (case stop of None \<Rightarrow> False | Some b \<Rightarrow> b < 0)
      then Inl AssertionError
      else
        let a = (case start of None \<Rightarrow> 0 | Some a \<Rightarrow> nat a);
            b = (case stop of None \<Rightarrow> length xs | Some b \<Rightarrow> nat b)
        in Inr (take (b - a) (drop a xs)))"

text \<open>
  \<^verbatim>\<open>order_by('f')\<close> and \<^verbatim>\<open>order_by('-f')\<close> on a nullable integer column. Where the
  backend puts NULL is a property of the database (\<open>nulls_largest\<close>: NULL sorts as larger
  than every value, so last ascending and first descending; otherwise as smaller). Rows
  with equal keys keep their storage order.
\<close>

definition null_rank :: "bool \<Rightarrow> int option \<Rightarrow> int \<times> int" where
  "null_rank nulls_largest g =
     (case g of None \<Rightarrow> (if nulls_largest then 1 else - 1, 0) | Some i \<Rightarrow> (0, i))"

definition order_by_asc :: "bool \<Rightarrow> ('a \<Rightarrow> int option) \<Rightarrow> 'a list \<Rightarrow> 'a list" where
  "order_by_asc nulls_largest f xs = sort_key (\<lambda>x. null_rank nulls_largest (f x)) xs"

definition order_by_desc :: "bool \<Rightarrow> ('a \<Rightarrow> int option) \<Rightarrow> 'a list \<Rightarrow> 'a list" where
  "order_by_desc nulls_largest f xs =
     sort_key (\<lambda>x. case null_rank nulls_largest (f x) of (a, b) \<Rightarrow> (- a, - b)) xs"

text \<open>SQL \<^verbatim>\<open>COUNT(expr)\<close> over the rows of one group counts the non-NULL values.\<close>

definition sql_count :: "'a option list \<Rightarrow> nat" where
  "sql_count vs = length (filter (\<lambda>v. v \<noteq> None) vs)"

text \<open>
  \<^verbatim>\<open>latest(field)\<close>: the row with the greatest value of the field, \<^verbatim>\<open>DoesNotExist\<close> when
  the selection is empty. Among rows with the same value the first one is taken.
\<close>

fun latest :: "('a \<Rightarrow> int) \<Rightarrow> 'a list \<Rightarrow> error + 'a" where
  "latest f [] = Inl DoesNotExist"
| "latest f (x # xs) =
     (case latest f xs of
        Inl e \<Rightarrow> Inr x
      | Inr y \<Rightarrow> (if f y \<le> f x then Inr x else Inr y))"

section \<open>Group counts and the row range\<close>

text \<open>One entry of the grouped counts: \<^verbatim>\<open>{'grouping_id': g, 'total': n}\<close>.\<close>

record counts_row =
  counts_grouping_id :: "int option"
  total :: nat

text \<open>
  The value of \<^verbatim>\<open>_counts\<close> once set is a query set, not a list: the query for the
  counts, with the rows it has fetched if it has been evaluated (\<^verbatim>\<open>_result_cache\<close>).
  \<^verbatim>\<open>len()\<close> evaluates a query set and keeps the rows in it; a slice of an evaluated
  query set reads the kept rows; a slice of an unevaluated one is a new query, run against
  the database when it is iterated, and leaves the sliced query set unevaluated.
\<close>

datatype counts_queryset = Unevaluated | Evaluated "counts_row list"

text \<open>
  The offset arithmetic of \<^verbatim>\<open>grouped_slice\<close> (the same lines in both query sets):
  \<^verbatim>\<open>
  if offset == 0:
      qs_offset = 0
  else:
      qs_offset = sum(int(row['total']) for row in counts[:offset])
  qs_limit = sum(int(row['total']) for row in counts[offset:offset+limit])
  \<close>
  \<open>counts\<close> is the sequence of entries the two slices read.
\<close>

definition row_range :: "counts_row list \<Rightarrow> int \<Rightarrow> int \<Rightarrow> error + (nat \<times> nat)" where
  "row_range counts offset limit =
     (case (if offset = 0 then Inr 0
            else (case qs_getitem counts None (Some offset) of
                    Inl e \<Rightarrow> Inl e
                  | Inr part \<Rightarrow> Inr (sum_list (map total part)))) of
        Inl e \<Rightarrow> Inl e
      | Inr qs_offset \<Rightarrow>
          (case qs_getitem counts (Some offset) (Some (offset + limit)) of
             Inl e \<Rightarrow> Inl e
           | Inr part \<Rightarrow> Inr (qs_offset, sum_list (map total part))))"

text \<open>
  The result dictionary keeps its keys in the order of first insertion:
  \<^verbatim>\<open>
  try:
      grouped_results[k].append(result)
  except (KeyError, AttributeError):
      grouped_results[k] = [result]
  \<close>
\<close>

fun dict_append :: "'k \<Rightarrow> 'v \<Rightarrow> ('k \<times> 'v list) list \<Rightarrow> ('k \<times> 'v list) list" where
  "dict_append k v [] = [(k, [v])]"
| "dict_append k v ((k', vs) # d) =
     (if k = k' then (k', vs @ [v]) # d else (k', vs) # dict_append k v d)"

section \<open>The denormalised form: MappingView and MappingViewQuerySet\<close>

record mapping_view =
  view_id :: int
  view_mapping_id :: "int option"
  view_alignment_difference :: "int option"
  view_status :: "int option"
  uniprot_tax_id :: "int option"
  view_grouping_id :: "int option"
  view_chromosome :: "string option"
  region_accession :: "string option"
  uniprot_mapping_status :: "string option"

text \<open>
  A query object: the rows the database holds for its filters (in storage order) at the
  time of a call, the attribute \<^verbatim>\<open>_counts\<close> of the instance, and the NULL placement of
  the database it runs on. The query object is lazy: every call reads the rows anew, so a
  change of the database between two calls is a change of \<open>view_rows\<close>.
\<close>

record mapping_view_queryset =
  view_rows :: "mapping_view list"
  view_counts :: "counts_queryset option"
  view_nulls_largest :: bool

text \<open>
  \<^verbatim>\<open>
  self.values('grouping_id').annotate(
      total=Count(Case(When(grouping_id__isnull=True, then=1), default=1))
  ).order_by('-grouping_id')
  \<close>
\<close>

definition view_counts_query :: "mapping_view_queryset \<Rightarrow> counts_row list" where
  "view_counts_query qs =
     map (\<lambda>g. \<lparr>counts_grouping_id = g,
               total = sql_count
                 (map (\<lambda>r. if view_grouping_id r = None then Some (1::int) else Some 1)
                    (filter (\<lambda>r. view_grouping_id r = g) (view_rows qs)))\<rparr>)
       (order_by_desc (view_nulls_largest qs) (\<lambda>g. g)
          (remdups (map view_grouping_id (view_rows qs))))"

text \<open>
  \<^verbatim>\<open>grouped_counts\<close> builds the query when \<^verbatim>\<open>_counts\<close> is \<^verbatim>\<open>None\<close>, stores it
  unevaluated, and returns the stored query set: the object the state holds.
\<close>

definition MappingViewQuerySet_grouped_counts ::
  "mapping_view_queryset \<Rightarrow> mapping_view_queryset" where
  "MappingViewQuerySet_grouped_counts qs =
     (case view_counts qs of
        None \<Rightarrow> qs\<lparr>view_counts := Some Unevaluated\<rparr>
      | Some c \<Rightarrow> qs)"

text \<open>
  The entries a slice of \<^verbatim>\<open>_counts\<close> reads: the kept rows of an evaluated query set,
  the result of the query against the database otherwise.
\<close>

definition view_counts_rows :: "mapping_view_queryset \<Rightarrow> counts_row list" where
  "view_counts_rows qs =
     (case view_counts qs of
        Some (Evaluated c) \<Rightarrow> c
      | _ \<Rightarrow> view_counts_query qs)"

text \<open>\<^verbatim>\<open>len(counts)\<close> evaluates the stored query set, once, and keeps its rows.\<close>

definition MappingViewQuerySet_grouped_count ::
  "mapping_view_queryset \<Rightarrow> nat \<times> mapping_view_queryset" where
  "MappingViewQuerySet_grouped_count qs =
     (let qs' = MappingViewQuerySet_grouped_counts qs
      in case view_counts qs' of
           Some (Evaluated c) \<Rightarrow> (length c, qs')
         | _ \<Rightarrow> (let c = view_counts_query qs'
                 in (length c, qs'\<lparr>view_counts := Some (Evaluated c)\<rparr>)))"

definition view_group_rows ::
  "mapping_view list \<Rightarrow> (int option \<times> mapping_view list) list" where
  "view_group_rows sub_qs =
     fold (\<lambda>result grouped_results. dict_append (view_grouping_id result) result grouped_results)
       sub_qs []"

definition MappingViewQuerySet_grouped_slice ::
  "mapping_view_queryset \<Rightarrow> int \<Rightarrow> int \<Rightarrow>
     (error + (int option \<times> mapping_view list) list) \<times> mapping_view_queryset" where
  "MappingViewQuerySet_grouped_slice qs offset limit =
     (let qs' = MappingViewQuerySet_grouped_counts qs
      in ((case row_range (view_counts_rows qs') offset limit of
             Inl e \<Rightarrow> Inl e
           | Inr (qs_offset, qs_limit) \<Rightarrow>
               (case qs_getitem
                       (order_by_desc (view_nulls_largest qs) view_grouping_id (view_rows qs))
                       (Some (int qs_offset)) (Some (int qs_offset + int qs_limit)) of
                  Inl e \<Rightarrow> Inl e
                | Inr sub_qs \<Rightarrow> Inr (view_group_rows sub_qs))),
          qs'))"

text \<open>
  The builtin \<^verbatim>\<open>sorted\<close> of Python 3 on chromosome labels, each a string or
  \<^verbatim>\<open>None\<close>: in a list of two or more elements every element is compared with another
  one, and a comparison with \<^verbatim>\<open>None\<close> raises \<^verbatim>\<open>TypeError\<close>; a list of fewer than
  two elements is returned without any comparison. Strings compare character by character.
\<close>

definition sorted_py :: "string option list \<Rightarrow> error + string option list" where
  "sorted_py xs =
     (if None \<notin> set xs then Inr (map Some (sort (List.map_filter (\<lambda>x. x) xs)))
      else if length xs < 2 then Inr xs
      else Inl TypeError)"

text \<open>Truthiness of \<^verbatim>\<open>pair['chromosome']\<close>: neither \<^verbatim>\<open>None\<close> nor the empty string.\<close>

definition truthy :: "string option \<Rightarrow> bool" where
  "truthy c = (case c of None \<Rightarrow> False | Some s \<Rightarrow> s \<noteq> [])"

text \<open>\<^verbatim>\<open>region_accession__iregex=r"^CHR"\<close>: the label starts with CHR in any letter case.\<close>

definition iregex_CHR :: "string option \<Rightarrow> bool" where
  "iregex_CHR a =
     (case a of
        Some (c1 # c2 # c3 # rest) \<Rightarrow>
          (c1 = CHR ''C'' \<or> c1 = CHR ''c'') \<and>
          (c2 = CHR ''H'' \<or> c2 = CHR ''h'') \<and>
          (c3 = CHR ''R'' \<or> c3 = CHR ''r'')
      | _ \<Rightarrow> False)"

text \<open>
  Modelled from the spec: the model class \<^verbatim>\<open>EnsemblSpeciesHistory\<close> is declared in
  \<^verbatim>\<open>restui/models/ensembl.py\<close>, outside the sources at hand; a species-history entry
  carries a tax id, a load time and a species name, the three columns \<^verbatim>\<open>species()\<close>
  reads.
\<close>

record ensembl_species_history =
  ensembl_tax_id :: "int option"
  time_loaded :: int
  species :: "string option"

text \<open>
  \<^verbatim>\<open>values(...).distinct()\<close> yields each distinct value once, in an order the backend
  chooses; the facet models list the distinct values in the order \<open>remdups\<close> leaves
  them, and nothing below rests on that order.
\<close>

definition MappingViewQuerySet_statuses :: "mapping_view_queryset \<Rightarrow> int option list" where
  "MappingViewQuerySet_statuses qs = remdups (map view_status (view_rows qs))"

fun view_species_loop ::
  "ensembl_species_history list \<Rightarrow> int option list \<Rightarrow>
     error + (int option \<times> string option) list" where
  "view_species_loop objects [] = Inr []"
| "view_species_loop objects (t # ts) =
     (case latest time_loaded (filter (\<lambda>h. ensembl_tax_id h = t) objects) of
        Inl e \<Rightarrow> Inl e
      | Inr h \<Rightarrow>
          (case view_species_loop objects ts of
             Inl e \<Rightarrow> Inl e
           | Inr species_list \<Rightarrow> Inr ((t, species h) # species_list)))"

definition MappingViewQuerySet_species ::
  "ensembl_species_history list \<Rightarrow> mapping_view_queryset \<Rightarrow>
     error + (int option \<times> string option) list" where
  "MappingViewQuerySet_species EnsemblSpeciesHistory_objects qs =
     view_species_loop EnsemblSpeciesHistory_objects
       (remdups (map uniprot_tax_id (view_rows qs)))"

definition MappingViewQuerySet_divergences :: "mapping_view_queryset \<Rightarrow> nat list" where
  "MappingViewQuerySet_divergences qs =
     (let identical = length (filter (\<lambda>r. case view_alignment_difference r of
                                None \<Rightarrow> False | Some d \<Rightarrow> d = 0) (view_rows qs));
          small = length (filter (\<lambda>r. case view_alignment_difference r of
                                None \<Rightarrow> False | Some d \<Rightarrow> 0 < d \<and> d \<le> 5) (view_rows qs));
          large = length (filter (\<lambda>r. case view_alignment_difference r of
                                None \<Rightarrow> False | Some d \<Rightarrow> 5 < d) (view_rows qs))
      in [identical, small, large])"

definition MappingViewQuerySet_chromosomes ::
  "mapping_view_queryset \<Rightarrow> error + string option list" where
  "MappingViewQuerySet_chromosomes qs =
     sorted_py (filter truthy (remdups (map view_chromosome (view_rows qs))))"

definition MappingViewQuerySet_types :: "mapping_view_queryset \<Rightarrow> string option list" where
  "MappingViewQuerySet_types qs = remdups (map uniprot_mapping_status (view_rows qs))"

definition MappingViewQuerySet_has_patches :: "mapping_view_queryset \<Rightarrow> bool" where
  "MappingViewQuerySet_has_patches qs =
     (0 < length (filter (\<lambda>r. iregex_CHR (region_accession r)) (view_rows qs)))"

section \<open>The normalised form: Mapping, its history chain, and MappingQuerySet\<close>

record release_mapping_history =
  release_mapping_history_id :: int
  time_mapped :: int
  uniprot_taxid :: "int option"

record mapping_history =
  mapping_history_id :: int
  release_mapping_history :: release_mapping_history
  grouping_id :: "int option"

text \<open>
  A Mapping with what the query set reaches from it: \<open>mapping_history\<close> is the related
  set of history entries, \<open>chromosome\<close> the value of \<^verbatim>\<open>transcript__gene__chromosome\<close>,
  \<open>species_history\<close> the (tax id, species) pairs of
  \<^verbatim>\<open>transcript__transcripthistory__ensembl_species_history\<close>.
\<close>

record mapping =
  mapping_id :: int
  mapping_history :: "mapping_history list"
  alignment_difference :: "int option"
  status :: int
  chromosome :: "string option"
  species_history :: "(int option \<times> string option) list"

text \<open>
  The query object of the normalised form, as the one of the denormalised form: the rows
  the database holds for its filters at the time of a call, the attribute \<^verbatim>\<open>_counts\<close>,
  the NULL placement of the database.
\<close>

record mapping_queryset =
  rows :: "mapping list"
  counts_memo :: "counts_queryset option"
  nulls_largest :: bool

text \<open>
  A lookup through \<^verbatim>\<open>mapping_history__grouping_id\<close> joins each Mapping with its history
  entries (LEFT OUTER JOIN): one joined row per entry, and one with NULL for a Mapping
  that has none.
\<close>

definition join_mapping_history :: "mapping list \<Rightarrow> (mapping \<times> int option) list" where
  "join_mapping_history ms =
     concat (map (\<lambda>m. case mapping_history m of
                         [] \<Rightarrow> [(m, None)]
                       | hs \<Rightarrow> map (\<lambda>h. (m, grouping_id h)) hs) ms)"

text \<open>
  \<^verbatim>\<open>
  self.values('mapping_history__grouping_id').annotate(
      total=Count('mapping_history__grouping_id')
  ).order_by('mapping_history__grouping_id')
  \<close>
\<close>

definition counts_query :: "mapping_queryset \<Rightarrow> counts_row list" where
  "counts_query qs =
     (let joined = join_mapping_history (rows qs) in
      map (\<lambda>g. \<lparr>counts_grouping_id = g,
                total = sql_count (map snd (filter (\<lambda>j. snd j = g) joined))\<rparr>)
        (order_by_asc (nulls_largest qs) (\<lambda>g. g) (remdups (map snd joined))))"

definition MappingQuerySet_grouped_counts :: "mapping_queryset \<Rightarrow> mapping_queryset" where
  "MappingQuerySet_grouped_counts qs =
     (case counts_memo qs of
        None \<Rightarrow> qs\<lparr>counts_memo := Some Unevaluated\<rparr>
      | Some c \<Rightarrow> qs)"

definition counts_rows :: "mapping_queryset \<Rightarrow> counts_row list" where
  "counts_rows qs =
     (case counts_memo qs of
        Some (Evaluated c) \<Rightarrow> c
      | _ \<Rightarrow> counts_query qs)"

definition MappingQuerySet_grouped_count ::
  "mapping_queryset \<Rightarrow> nat \<times> mapping_queryset" where
  "MappingQuerySet_grouped_count qs =
     (let qs' = MappingQuerySet_grouped_counts qs
      in case counts_memo qs' of
           Some (Evaluated c) \<Rightarrow> (length c, qs')
         | _ \<Rightarrow> (let c = counts_query qs'
                 in (length c, qs'\<lparr>counts_memo := Some (Evaluated c)\<rparr>)))"

text \<open>
  \<^verbatim>\<open>result.mapping_history.latest('release_mapping_history__time_mapped')\<close>
\<close>

definition latest_mapping_history :: "mapping \<Rightarrow> error + mapping_history" where
  "latest_mapping_history result =
     latest (\<lambda>h. time_mapped (release_mapping_history h)) (mapping_history result)"

text \<open>
  \<^verbatim>\<open>ReleaseMappingHistory.objects.filter(uniprot_taxid=result_species).latest('time_mapped')\<close>
\<close>

definition species_latest ::
  "release_mapping_history list \<Rightarrow> int option \<Rightarrow> error + release_mapping_history" where
  "species_latest ReleaseMappingHistory_objects result_species =
     latest time_mapped
       (filter (\<lambda>r. uniprot_taxid r = result_species) ReleaseMappingHistory_objects)"

type_synonym grouped_state =
  "(int option \<times> mapping list) list \<times> (int option \<Rightarrow> int set)"

text \<open>
  One pass of the loop body over a fetched row; the state is \<^verbatim>\<open>grouped_results\<close> and
  \<^verbatim>\<open>grouped_results_added\<close>. Model instances compare by primary key.
\<close>

definition grouped_slice_step ::
  "release_mapping_history list \<Rightarrow> mapping \<Rightarrow> grouped_state \<Rightarrow> error + grouped_state" where
  "grouped_slice_step ReleaseMappingHistory_objects result st =
     (case st of (grouped_results, grouped_results_added) \<Rightarrow>
        (case latest_mapping_history result of
           Inl e \<Rightarrow> Inl e
         | Inr h \<Rightarrow>
             (let g = grouping_id h in
              if mapping_id result \<in> grouped_results_added g then Inr st
              else
                (case latest_mapping_history result of
                   Inl e \<Rightarrow> Inl e
                 | Inr h' \<Rightarrow>
                     (let result_rmh = release_mapping_history h';
                          result_species = uniprot_taxid result_rmh
                      in case species_latest ReleaseMappingHistory_objects result_species of
                           Inl e \<Rightarrow> Inl e
                         | Inr species_latest_rmh \<Rightarrow>
                             if release_mapping_history_id result_rmh \<noteq>
                                release_mapping_history_id species_latest_rmh
                             then Inr st
                             else Inr (dict_append g result grouped_results,
                                       grouped_results_added
                                         (g := insert (mapping_id result)
                                                 (grouped_results_added g))))))))"

fun grouped_slice_loop ::
  "release_mapping_history list \<Rightarrow> mapping list \<Rightarrow> grouped_state \<Rightarrow> error + grouped_state" where
  "grouped_slice_loop objects [] st = Inr st"
| "grouped_slice_loop objects (result # sub_qs) st =
     (case grouped_slice_step objects result st of
        Inl e \<Rightarrow> Inl e
      | Inr st' \<Rightarrow> grouped_slice_loop objects sub_qs st')"

text \<open>
  The ranged fetch: the joined rows in ascending order of the joined grouping id, cut to
  the row range; each joined row yields its Mapping.
\<close>

definition fetch_rows :: "mapping_queryset \<Rightarrow> nat \<Rightarrow> nat \<Rightarrow> error + mapping list" where
  "fetch_rows qs qs_offset qs_limit =
     (case qs_getitem (order_by_asc (nulls_largest qs) snd (join_mapping_history (rows qs)))
             (Some (int qs_offset)) (Some (int qs_offset + int qs_limit)) of
        Inl e \<Rightarrow> Inl e
      | Inr js \<Rightarrow> Inr (map fst js))"

definition MappingQuerySet_grouped_slice ::
  "release_mapping_history list \<Rightarrow> mapping_queryset \<Rightarrow> int \<Rightarrow> int \<Rightarrow>
     (error + (int option \<times> mapping list) list) \<times> mapping_queryset" where
  "MappingQuerySet_grouped_slice ReleaseMappingHistory_objects qs offset limit =
     (let qs' = MappingQuerySet_grouped_counts qs
      in ((case row_range (counts_rows qs') offset limit of
             Inl e \<Rightarrow> Inl e
           | Inr (qs_offset, qs_limit) \<Rightarrow>
               (case fetch_rows qs qs_offset qs_limit of
                  Inl e \<Rightarrow> Inl e
                | Inr sub_qs \<Rightarrow>
                    (case grouped_slice_loop ReleaseMappingHistory_objects sub_qs
                            ([], \<lambda>g. {}) of
                       Inl e \<Rightarrow> Inl e
                     | Inr st \<Rightarrow> Inr (fst st)))),
          qs'))"

definition MappingQuerySet_statuses :: "mapping_queryset \<Rightarrow> int list" where
  "MappingQuerySet_statuses qs = remdups (map status (rows qs))"

definition MappingQuerySet_species ::
  "mapping_queryset \<Rightarrow> (int option \<times> string option) list" where
  "MappingQuerySet_species qs =
     remdups (concat (map (\<lambda>m. case species_history m of
                                  [] \<Rightarrow> [(None, None)]
                                | ps \<Rightarrow> ps) (rows qs)))"

definition MappingQuerySet_divergences :: "mapping_queryset \<Rightarrow> nat list" where
  "MappingQuerySet_divergences qs =
     (let identical = length (filter (\<lambda>r. case alignment_difference r of
                                None \<Rightarrow> False | Some d \<Rightarrow> d = 0) (rows qs));
          small = length (filter (\<lambda>r. case alignment_difference r of
                                None \<Rightarrow> False | Some d \<Rightarrow> 0 < d \<and> d \<le> 5) (rows qs));
          large = length (filter (\<lambda>r. case alignment_difference r of
                                None \<Rightarrow> False | Some d \<Rightarrow> 5 < d) (rows qs))
      in [identical, small, large])"

definition MappingQuerySet_chromosomes :: "mapping_queryset \<Rightarrow> error + string option list" where
  "MappingQuerySet_chromosomes qs = sorted_py (remdups (map chromosome (rows qs)))"

section \<open>The vocabulary caches of Mapping and MappingView\<close>

text \<open>
  \<^verbatim>\<open>CvEntryType.objects.all()\<close> and \<^verbatim>\<open>CvUeStatus.objects.all()\<close> are lists of
  (id, description) rows; the class attributes \<^verbatim>\<open>_entry_type\<close> and \<^verbatim>\<open>_status_type\<close>
  are dictionaries, threaded through each call. An empty dictionary is falsy.
\<close>

fun dict_setitem :: "'k \<Rightarrow> 'v \<Rightarrow> ('k \<times> 'v) list \<Rightarrow> ('k \<times> 'v) list" where
  "dict_setitem k v [] = [(k, v)]"
| "dict_setitem k v ((k', v') # d) =
     (if k = k' then (k, v) # d else (k', v') # dict_setitem k v d)"

definition dict_getitem :: "('k \<times> 'v) list \<Rightarrow> 'k \<Rightarrow> error + 'v" where
  "dict_getitem d k = (case map_of d k of None \<Rightarrow> Inl KeyError | Some v \<Rightarrow> Inr v)"

definition load_vocabulary :: "('k \<times> 'd) list \<Rightarrow> ('k \<times> 'd) list" where
  "load_vocabulary objects = fold (\<lambda>entry entries. dict_setitem (fst entry) (snd entry) entries) objects []"

definition Mapping_entry_type ::
  "('k \<times> 'd) list \<Rightarrow> ('k \<times> 'd) list \<Rightarrow> 'k \<Rightarrow> (error + 'd) \<times> ('k \<times> 'd) list" where
  "Mapping_entry_type CvEntryType_objects entry_type_cache identity =
     (let cache = (if entry_type_cache = [] then load_vocabulary CvEntryType_objects
                   else entry_type_cache)
      in (dict_getitem cache identity, cache))"

definition Mapping_status_type ::
  "('k \<times> 'd) list \<Rightarrow> ('k \<times> 'd) list \<Rightarrow> 'k \<Rightarrow> (error + 'd) \<times> ('k \<times> 'd) list" where
  "Mapping_status_type CvUeStatus_objects status_type_cache identity =
     (let cache = (if status_type_cache = [] then load_vocabulary CvUeStatus_objects
                   else status_type_cache)
      in (dict_getitem cache identity, cache))"

definition MappingView_entry_description ::
  "('k \<times> 'd) list \<Rightarrow> ('k \<times> 'd) list \<Rightarrow> 'k \<Rightarrow> (error + 'd option) \<times> ('k \<times> 'd) list" where
  "MappingView_entry_description CvEntryType_objects entry_type_cache identity =
     (let cache = (if entry_type_cache = [] then load_vocabulary CvEntryType_objects
                   else entry_type_cache)
      in ((case dict_getitem cache identity of
             Inr d \<Rightarrow> Inr (Some d)
           | Inl KeyError \<Rightarrow> Inr None
           | Inl e \<Rightarrow> Inl e), cache))"

definition MappingView_status_description ::
  "('k \<times> 'd) list \<Rightarrow> ('k \<times> 'd) list \<Rightarrow> 'k \<Rightarrow> (error + 'd option) \<times> ('k \<times> 'd) list" where
  "MappingView_status_description CvUeStatus_objects status_type_cache identity =
     (let cache = (if status_type_cache = [] then load_vocabulary CvUeStatus_objects
                   else status_type_cache)
      in ((case dict_getitem cache identity of
             Inr d \<Rightarrow> Inr (Some d)
           | Inl KeyError \<Rightarrow> Inr None
           | Inl e \<Rightarrow> Inl e), cache))"

section \<open>Notions of the specification\<close>

text \<open>
  The row range as the specification words it: the row offset is 0 for group offset 0 and
  otherwise the sum of the totals of the first \<open>offset\<close> count entries; the row count is
  the sum of the totals of the entries at indices from \<open>offset\<close> up to, not including,
  \<open>offset + limit\<close>.
\<close>

definition spec_row_offset :: "counts_row list \<Rightarrow> int \<Rightarrow> nat" where
  "spec_row_offset counts offset =
     (if offset = 0 then 0 else sum_list (map total (take (nat offset) counts)))"

definition spec_row_count :: "counts_row list \<Rightarrow> int \<Rightarrow> int \<Rightarrow> nat" where
  "spec_row_count counts offset limit =
     sum_list (map total (take (nat limit) (drop (nat offset) counts)))"

text \<open>The number of rows in the lists of a returned mapping.\<close>

definition rows_returned :: "('k \<times> 'v list) list \<Rightarrow> nat" where
  "rows_returned d = sum_list (map (\<lambda>kv. length (snd kv)) d)"

text \<open>
  The counts a query object reads are those of its rowset: \<^verbatim>\<open>_counts\<close> is unset or
  unevaluated, or it was evaluated on the rowset as it is now.
\<close>

definition view_counts_valid :: "mapping_view_queryset \<Rightarrow> bool" where
  "view_counts_valid qs =
     (case view_counts qs of Some (Evaluated c) \<Rightarrow> c = view_counts_query qs | _ \<Rightarrow> True)"

definition counts_valid :: "mapping_queryset \<Rightarrow> bool" where
  "counts_valid qs =
     (case counts_memo qs of Some (Evaluated c) \<Rightarrow> c = counts_query qs | _ \<Rightarrow> True)"

text \<open>
  The order of group keys, said without the sort: \<open>g\<close> comes strictly before \<open>g'\<close>
  in ascending, respectively descending, order; \<open>nulls_high\<close> says that the backend
  sorts NULL as larger than every value.
\<close>

definition key_before_asc :: "bool \<Rightarrow> int option \<Rightarrow> int option \<Rightarrow> bool" where
  "key_before_asc nulls_high g g' =
     (case (g, g') of
        (Some a, Some b) \<Rightarrow> a < b
      | (Some a, None) \<Rightarrow> nulls_high
      | (None, Some b) \<Rightarrow> \<not> nulls_high
      | (None, None) \<Rightarrow> False)"

definition key_before_desc :: "bool \<Rightarrow> int option \<Rightarrow> int option \<Rightarrow> bool" where
  "key_before_desc nulls_high g g' =
     (case (g, g') of
        (Some a, Some b) \<Rightarrow> b < a
      | (Some a, None) \<Rightarrow> \<not> nulls_high
      | (None, Some b) \<Rightarrow> nulls_high
      | (None, None) \<Rightarrow> False)"

text \<open>
  The most recently mapped history entries of a row: the entries no other entry of the row
  was mapped after. The latest release snapshots of a species: the snapshots of that
  species no other snapshot of it was mapped after. (More than one only when mapped times
  coincide.)
\<close>

definition latest_entries :: "mapping \<Rightarrow> mapping_history list" where
  "latest_entries result =
     filter (\<lambda>h. \<forall>h' \<in> set (mapping_history result).
                    time_mapped (release_mapping_history h')
                      \<le> time_mapped (release_mapping_history h))
       (mapping_history result)"

definition latest_snapshots ::
  "release_mapping_history list \<Rightarrow> int option \<Rightarrow> release_mapping_history list" where
  "latest_snapshots objects sp =
     filter (\<lambda>s. uniprot_taxid s = sp \<and>
                 (\<forall>s' \<in> set objects. uniprot_taxid s' = sp \<longrightarrow> time_mapped s' \<le> time_mapped s))
       objects"

text \<open>
  A stale row: it has history, and each of its most recently mapped entries refers to a
  release snapshot of a species that has snapshots, none of whose latest ones is the
  snapshot referred to. A row eligible under the group key \<open>g\<close>: one of its most recently
  mapped entries has the group key \<open>g\<close> and refers to a latest snapshot of its species.
  A row current under \<open>g\<close>: it has history and each of its most recently mapped entries
  has the group key \<open>g\<close> and refers to the snapshot every latest snapshot of its species is.
\<close>

definition stale :: "release_mapping_history list \<Rightarrow> mapping \<Rightarrow> bool" where
  "stale objects result =
     (mapping_history result \<noteq> [] \<and>
      (\<forall>h \<in> set (latest_entries result).
         latest_snapshots objects (uniprot_taxid (release_mapping_history h)) \<noteq> [] \<and>
         (\<forall>s \<in> set (latest_snapshots objects (uniprot_taxid (release_mapping_history h))).
            release_mapping_history_id s \<noteq>
              release_mapping_history_id (release_mapping_history h))))"

definition is_eligible :: "release_mapping_history list \<Rightarrow> mapping \<Rightarrow> int option \<Rightarrow> bool" where
  "is_eligible objects result g =
     (\<exists>h \<in> set (latest_entries result).
        grouping_id h = g \<and>
        (\<exists>s \<in> set (latest_snapshots objects (uniprot_taxid (release_mapping_history h))).
           release_mapping_history_id s =
             release_mapping_history_id (release_mapping_history h)))"

definition current :: "release_mapping_history list \<Rightarrow> mapping \<Rightarrow> int option \<Rightarrow> bool" where
  "current objects result g =
     (mapping_history result \<noteq> [] \<and>
      (\<forall>h \<in> set (latest_entries result).
         grouping_id h = g \<and>
         latest_snapshots objects (uniprot_taxid (release_mapping_history h)) \<noteq> [] \<and>
         (\<forall>s \<in> set (latest_snapshots objects (uniprot_taxid (release_mapping_history h))).
            release_mapping_history_id s =
              release_mapping_history_id (release_mapping_history h))))"

text \<open>
  The invariant of the loop: one list per key; every row in a list is eligible under the
  key of the list; no list holds a primary identifier twice; and the identifiers recorded
  for a key are those of the rows in the list of that key.
\<close>

definition loop_invariant ::
  "release_mapping_history list \<Rightarrow> grouped_state \<Rightarrow> bool" where
  "loop_invariant objects st =
     (distinct (map fst (fst st)) \<and>
      (\<forall>g. case map_of (fst st) g of
              None \<Rightarrow> snd st g = {}
            | Some rs \<Rightarrow> (\<forall>r \<in> set rs. is_eligible objects r g) \<and>
                         distinct (map mapping_id rs) \<and> mapping_id ` set rs = snd st g))"

text \<open>The number of alignment differences, NULL left out, that satisfy a bound.\<close>

definition bucket_count :: "(int \<Rightarrow> bool) \<Rightarrow> int option list \<Rightarrow> nat" where
  "bucket_count P ds = length (filter (\<lambda>d. case d of None \<Rightarrow> False | Some n \<Rightarrow> P n) ds)"

text \<open>The vocabulary a lookup reads: the class-level cache, loaded when it is empty.\<close>

definition vocabulary :: "('k \<times> 'd) list \<Rightarrow> ('k \<times> 'd) list \<Rightarrow> ('k \<times> 'd) list" where
  "vocabulary objects cache = (if cache = [] then load_vocabulary objects else cache)"

section \<open>Example data\<close>

definition view_row :: "int \<Rightarrow> int option \<Rightarrow> int option \<Rightarrow> mapping_view" where
  "view_row i m g =
     \<lparr>view_id = i, view_mapping_id = m, view_alignment_difference = None, view_status = None,
      uniprot_tax_id = None, view_grouping_id = g, view_chromosome = None,
      region_accession = None, uniprot_mapping_status = None\<rparr>"

definition view_queryset :: "mapping_view list \<Rightarrow> mapping_view_queryset" where
  "view_queryset rs = \<lparr>view_rows = rs, view_counts = None, view_nulls_largest = True\<rparr>"

text \<open>Ten rows in three groups; in descending order of the group key the totals are 3, 2, 5.\<close>

definition example_view_queryset :: mapping_view_queryset where
  "example_view_queryset =
     view_queryset
       [view_row 1 (Some 1) (Some 3), view_row 2 (Some 2) (Some 3), view_row 3 (Some 3) (Some 3),
        view_row 4 (Some 4) (Some 2), view_row 5 (Some 5) (Some 2),
        view_row 6 (Some 6) (Some 1), view_row 7 (Some 7) (Some 1), view_row 8 (Some 8) (Some 1),
        view_row 9 (Some 9) (Some 1), view_row 10 (Some 10) (Some 1)]"

definition release_old :: release_mapping_history where
  "release_old = \<lparr>release_mapping_history_id = 1, time_mapped = 100, uniprot_taxid = Some 9606\<rparr>"

definition release_new :: release_mapping_history where
  "release_new = \<lparr>release_mapping_history_id = 2, time_mapped = 200, uniprot_taxid = Some 9606\<rparr>"

definition history_entry ::
  "int \<Rightarrow> release_mapping_history \<Rightarrow> int option \<Rightarrow> mapping_history" where
  "history_entry i r g =
     \<lparr>mapping_history_id = i, release_mapping_history = r, grouping_id = g\<rparr>"

definition mapping_row :: "int \<Rightarrow> mapping_history list \<Rightarrow> mapping" where
  "mapping_row i hs =
     \<lparr>mapping_id = i, mapping_history = hs, alignment_difference = None, status = 1,
      chromosome = None, species_history = []\<rparr>"

definition queryset :: "mapping list \<Rightarrow> mapping_queryset" where
  "queryset ms = \<lparr>rows = ms, counts_memo = None, nulls_largest = True\<rparr>"

text \<open>Ten Mappings in three groups; in ascending order of the group key the totals are 3, 2, 5.\<close>

definition example_queryset :: mapping_queryset where
  "example_queryset =
     queryset
       [mapping_row 1 [history_entry 1 release_new (Some 1)],
        mapping_row 2 [history_entry 2 release_new (Some 1)],
        mapping_row 3 [history_entry 3 release_new (Some 1)],
        mapping_row 4 [history_entry 4 release_new (Some 2)],
        mapping_row 5 [history_entry 5 release_new (Some 2)],
        mapping_row 6 [history_entry 6 release_new (Some 3)],
        mapping_row 7 [history_entry 7 release_new (Some 3)],
        mapping_row 8 [history_entry 8 release_new (Some 3)],
        mapping_row 9 [history_entry 9 release_new (Some 3)],
        mapping_row 10 [history_entry 10 release_new (Some 3)]]"

text \<open>
  Nine Mappings with the same totals 3, 2, 5: the second group is Mapping 4 with two
  history entries of group 2.
\<close>

definition repeated_queryset :: mapping_queryset where
  "repeated_queryset =
     queryset
       [mapping_row 1 [history_entry 1 release_new (Some 1)],
        mapping_row 2 [history_entry 2 release_new (Some 1)],
        mapping_row 3 [history_entry 3 release_new (Some 1)],
        mapping_row 4 [history_entry 4 release_new (Some 2), history_entry 5 release_new (Some 2)],
        mapping_row 6 [history_entry 6 release_new (Some 3)],
        mapping_row 7 [history_entry 7 release_new (Some 3)],
        mapping_row 8 [history_entry 8 release_new (Some 3)],
        mapping_row 9 [history_entry 9 release_new (Some 3)],
        mapping_row 10 [history_entry 10 release_new (Some 3)]]"

text \<open>One Mapping with two history entries of the same group: the join yields it twice.\<close>

definition duplicate_queryset :: mapping_queryset where
  "duplicate_queryset =
     queryset [mapping_row 7 [history_entry 1 release_new (Some 1),
                              history_entry 2 release_new (Some 1)]]"

text \<open>Two rows of the view with the same group key and the same \<^verbatim>\<open>mapping_id\<close>.\<close>

definition duplicate_view_queryset :: mapping_view_queryset where
  "duplicate_view_queryset =
     view_queryset [view_row 1 (Some 7) (Some 1), view_row 2 (Some 7) (Some 1)]"

text \<open>One Mapping whose only history entry has no group key.\<close>

definition null_group_queryset :: mapping_queryset where
  "null_group_queryset = queryset [mapping_row 7 [history_entry 1 release_new None]]"

definition null_group_view_queryset :: mapping_view_queryset where
  "null_group_view_queryset = view_queryset [view_row 1 (Some 7) None]"

text \<open>A Mapping last mapped in the superseded release, beside a current one.\<close>

definition stale_queryset :: mapping_queryset where
  "stale_queryset =
     queryset [mapping_row 1 [history_entry 1 release_old (Some 1)],
               mapping_row 2 [history_entry 2 release_new (Some 1)]]"

definition difference_queryset :: "int option list \<Rightarrow> mapping_queryset" where
  "difference_queryset ds =
     queryset (map (\<lambda>(i, d). (mapping_row (int i) [])\<lparr>alignment_difference := d\<rparr>)
                 (enumerate 1 ds))"

definition difference_view_queryset :: "int option list \<Rightarrow> mapping_view_queryset" where
  "difference_view_queryset ds =
     view_queryset (map (\<lambda>(i, d). (view_row (int i) None None)\<lparr>view_alignment_difference := d\<rparr>)
                      (enumerate 1 ds))"

definition chromosome_queryset :: "string option list \<Rightarrow> mapping_queryset" where
  "chromosome_queryset cs =
     queryset (map (\<lambda>(i, c). (mapping_row (int i) [])\<lparr>chromosome := c\<rparr>) (enumerate 1 cs))"

definition chromosome_view_queryset :: "string option list \<Rightarrow> mapping_view_queryset" where
  "chromosome_view_queryset cs =
     view_queryset (map (\<lambda>(i, c). (view_row (int i) None None)\<lparr>view_chromosome := c\<rparr>)
                      (enumerate 1 cs))"

definition example_vocabulary :: "(int \<times> string) list" where
  "example_vocabulary = [(1, ''Swiss-Prot isoform''), (2, ''Swiss-Prot canonical''), (3, ''TrEMBL'')]"

section \<open>Slicing and the row range\<close>

lemma qs_getitem_nonneg:
  "0 \<le> a \<Longrightarrow> 0 \<le> b \<Longrightarrow>
   qs_getitem xs (Some a) (Some b) = Inr (take (nat b - nat a) (drop (nat a) xs))"
  by (simp add: qs_getitem_def Let_def)

lemma qs_getitem_prefix:
  "0 \<le> b \<Longrightarrow> qs_getitem xs None (Some b) = Inr (take (nat b) xs)"
  by (simp add: qs_getitem_def Let_def)

lemma qs_getitem_rows:
  "qs_getitem xs (Some (int a)) (Some (int a + int b)) = Inr (take b (drop a xs))"
  by (simp add: qs_getitem_def Let_def nat_add_distrib)

lemma spec_row_offset_eq:
  "spec_row_offset counts offset = sum_list (map total (take (nat offset) counts))"
  by (simp add: spec_row_offset_def)

lemma row_range_nonneg:
  assumes "0 \<le> offset" "0 \<le> limit"
  shows "row_range counts offset limit =
     Inr (spec_row_offset counts offset, spec_row_count counts offset limit)"
proof -
  have "nat (offset + limit) - nat offset = nat limit" using assms by linarith
  then show ?thesis using assms
    by (simp add: row_range_def qs_getitem_nonneg qs_getitem_prefix
        spec_row_offset_def spec_row_count_def)
qed

lemma row_range_Inr:
  assumes "row_range counts offset limit = Inr (qo, ql)"
  shows "0 \<le> offset \<and> 0 \<le> offset + limit \<and> ql = spec_row_count counts offset limit
     \<and> qo = spec_row_offset counts offset"
proof -
  have 1: "0 \<le> offset" "0 \<le> offset + limit" using assms
    by (auto simp: row_range_def qs_getitem_def split: if_splits sum.splits)
  then have "nat (offset + limit) - nat offset = nat limit" by linarith
  then show ?thesis using assms 1
    by (auto simp: row_range_def qs_getitem_def Let_def spec_row_count_def spec_row_offset_def
        split: if_splits sum.splits)
qed

lemma view_counts_rows_grouped_counts [simp]:
  "view_counts_rows (MappingViewQuerySet_grouped_counts qs) = view_counts_rows qs"
  by (simp add: view_counts_rows_def MappingViewQuerySet_grouped_counts_def view_counts_query_def
      split: option.splits counts_queryset.splits)

lemma counts_rows_grouped_counts [simp]:
  "counts_rows (MappingQuerySet_grouped_counts qs) = counts_rows qs"
  by (simp add: counts_rows_def MappingQuerySet_grouped_counts_def counts_query_def
      split: option.splits counts_queryset.splits)

lemma view_grouped_slice_nonneg:
  assumes "0 \<le> offset" "0 \<le> limit"
  shows "fst (MappingViewQuerySet_grouped_slice vqs offset limit) =
       Inr (view_group_rows
              (take (spec_row_count (view_counts_rows vqs) offset limit)
                 (drop (spec_row_offset (view_counts_rows vqs) offset)
                    (order_by_desc (view_nulls_largest vqs) view_grouping_id (view_rows vqs)))))"
  using assms
  by (simp add: MappingViewQuerySet_grouped_slice_def Let_def row_range_nonneg qs_getitem_rows)

lemma grouped_slice_nonneg:
  assumes "0 \<le> offset" "0 \<le> limit"
  shows "fst (MappingQuerySet_grouped_slice objs nqs offset limit) =
       (case grouped_slice_loop objs
               (map fst
                  (take (spec_row_count (counts_rows nqs) offset limit)
                     (drop (spec_row_offset (counts_rows nqs) offset)
                        (order_by_asc (nulls_largest nqs) snd (join_mapping_history (rows nqs))))))
               ([], \<lambda>g. {}) of
          Inl e \<Rightarrow> Inl e
        | Inr st \<Rightarrow> Inr (fst st))"
  using assms
  by (simp add: MappingQuerySet_grouped_slice_def Let_def row_range_nonneg fetch_rows_def
      qs_getitem_rows)

lemma view_grouped_slice_Inr:
  assumes "fst (MappingViewQuerySet_grouped_slice vqs offset limit) = Inr vres"
  shows "0 \<le> offset \<and> 0 \<le> offset + limit \<and>
     vres = view_group_rows
           (take (spec_row_count (view_counts_rows vqs) offset limit)
              (drop (spec_row_offset (view_counts_rows vqs) offset)
                 (order_by_desc (view_nulls_largest vqs) view_grouping_id (view_rows vqs))))"
proof -
  from assms obtain qo ql where r: "row_range (view_counts_rows vqs) offset limit = Inr (qo, ql)"
    by (auto simp: MappingViewQuerySet_grouped_slice_def Let_def split: sum.splits)
  from row_range_Inr[OF r] assms r show ?thesis
    by (simp add: MappingViewQuerySet_grouped_slice_def Let_def qs_getitem_rows)
qed

lemma grouped_slice_Inr:
  assumes "fst (MappingQuerySet_grouped_slice objects qs offset limit) = Inr res"
  shows "\<exists>sub_qs st.
           0 \<le> offset \<and> 0 \<le> offset + limit
           \<and> fetch_rows qs (spec_row_offset (counts_rows qs) offset)
                 (spec_row_count (counts_rows qs) offset limit) = Inr sub_qs
           \<and> grouped_slice_loop objects sub_qs ([], \<lambda>g. {}) = Inr st \<and> res = fst st"
proof -
  from assms obtain qo ql where r: "row_range (counts_rows qs) offset limit = Inr (qo, ql)"
    by (auto simp: MappingQuerySet_grouped_slice_def Let_def split: sum.splits)
  from row_range_Inr[OF r] assms r show ?thesis
    by (auto simp: MappingQuerySet_grouped_slice_def Let_def split: sum.splits)
qed

lemma fetch_rows_eq:
  "fetch_rows qs a b =
     Inr (map fst (take b (drop a (order_by_asc (nulls_largest qs) snd
                                      (join_mapping_history (rows qs))))))"
  by (simp add: fetch_rows_def qs_getitem_rows)

section \<open>Ordered rows as a sequence of groups\<close>

lemma filter_concat_groups:
  assumes "distinct gs"
  shows "filter (\<lambda>x. f x = a) (concat (map (\<lambda>g. filter (\<lambda>x. f x = g) xs) gs)) =
         (if a \<in> set gs then filter (\<lambda>x. f x = a) xs else [])"
  using assms
proof (induction gs)
  case Nil
  then show ?case by simp
next
  case (Cons g gs)
  from Cons show ?case by (auto simp: filter_empty_conv)
qed

lemma mset_concat_groups:
  assumes "distinct gs"
  shows "mset (concat (map (\<lambda>g. filter (\<lambda>x. f x = g) xs) gs)) =
         mset (filter (\<lambda>x. f x \<in> set gs) xs)"
  using assms
proof (induction gs)
  case Nil
  then show ?case by simp
next
  case (Cons g gs)
  have "mset (filter (\<lambda>x. f x = g) xs) + mset (filter (\<lambda>x. f x \<in> set gs) xs) =
      mset (filter (\<lambda>x. f x = g \<or> f x \<in> set gs) xs)"
    using Cons.prems by (induction xs) auto
  with Cons show ?case by simp
qed

lemma sorted_group:
  "sorted (map (\<lambda>x. K (f x)) (filter (\<lambda>x. f x = a) xs))"
proof -
  have "map (\<lambda>x. K (f x)) (filter (\<lambda>x. f x = a) xs) =
      map (\<lambda>x. K a) (filter (\<lambda>x. f x = a) xs)"
    by (rule map_cong) auto
  then show ?thesis by (simp add: map_replicate_const)
qed

lemma sorted_concat_groups:
  assumes "sorted (map K gs)"
  shows "sorted (map (\<lambda>x. K (f x)) (concat (map (\<lambda>g. filter (\<lambda>x. f x = g) xs) gs)))"
  using assms
  by (induction gs) (auto simp: sorted_append sorted_group)

lemma sort_key_groups:
  fixes K :: "'g \<Rightarrow> 'k::linorder"
  assumes "inj K"
  shows "sort_key (\<lambda>x. K (f x)) xs =
         concat (map (\<lambda>g. filter (\<lambda>x. f x = g) xs) (sort_key K (remdups (map f xs))))"
proof (rule properties_for_sort_key)
  let ?gs = "sort_key K (remdups (map f xs))"
  have d: "distinct ?gs" by simp
  have s: "set ?gs = f ` set xs" by simp
  show "mset (concat (map (\<lambda>g. filter (\<lambda>x. f x = g) xs) ?gs)) = mset xs"
    by (simp only: mset_concat_groups[OF d] s) simp
  show "sorted (map (\<lambda>x. K (f x)) (concat (map (\<lambda>g. filter (\<lambda>x. f x = g) xs) ?gs)))"
    by (rule sorted_concat_groups) simp
  fix k assume k: "k \<in> set (concat (map (\<lambda>g. filter (\<lambda>x. f x = g) xs) ?gs))"
  then have "f k \<in> set ?gs" by auto
  then have "filter (\<lambda>x. f x = f k) (concat (map (\<lambda>g. filter (\<lambda>x. f x = g) xs) ?gs)) =
      filter (\<lambda>x. f x = f k) xs"
    by (simp only: filter_concat_groups[OF d] if_True)
  moreover have "\<And>x. (K (f k) = K (f x)) = (f x = f k)"
    using assms by (auto dest: injD)
  ultimately show "filter (\<lambda>x. K (f k) = K (f x)) (concat (map (\<lambda>g. filter (\<lambda>x. f x = g) xs) ?gs)) =
      filter (\<lambda>x. K (f k) = K (f x)) xs"
    by simp
qed

lemma take_drop_concat:
  "take (sum_list (map length (take b (drop a xss))))
     (drop (sum_list (map length (take a xss))) (concat xss)) = concat (take b (drop a xss))"
proof -
  have 1: "concat xss = concat (take a xss) @ concat (drop a xss)"
    by (metis append_take_drop_id concat_append)
  have 2: "concat (drop a xss) = concat (take b (drop a xss)) @ concat (drop b (drop a xss))"
    by (metis append_take_drop_id concat_append)
  have "drop (sum_list (map length (take a xss))) (concat xss) = concat (drop a xss)"
    by (subst 1) (simp add: length_concat)
  moreover have "take (sum_list (map length (take b (drop a xss)))) (concat (drop a xss)) =
      concat (take b (drop a xss))"
    by (subst 2) (simp add: length_concat)
  ultimately show ?thesis by simp
qed

lemma inj_null_rank: "inj (null_rank nl)"
  by (rule injI) (auto simp: null_rank_def split: option.splits if_splits)

lemma inj_null_rank_desc: "inj (\<lambda>g. case null_rank nl g of (a, b) \<Rightarrow> (- a, - b))"
  by (rule injI) (auto simp: null_rank_def split: option.splits if_splits)

lemma null_rank_less: "(null_rank nl g < null_rank nl g') = key_before_asc nl g g'"
  by (auto simp: null_rank_def key_before_asc_def split: option.splits)

lemma null_rank_desc_less:
  "((case null_rank nl g of (a, b) \<Rightarrow> (- a, - b)) < (case null_rank nl g' of (a, b) \<Rightarrow> (- a, - b)))
     = key_before_desc nl g g'"
  by (auto simp: null_rank_def key_before_desc_def split: option.splits)

lemma sorted_wrt_sort_key_distinct:
  fixes K :: "'g \<Rightarrow> 'k::linorder"
  assumes "inj K" "distinct gs"
  shows "sorted_wrt (\<lambda>g g'. K g < K g') (sort_key K gs)"
proof -
  have "sorted (map K (sort_key K gs))" by simp
  moreover have "inj_on K (set (sort_key K gs))"
    by (rule inj_on_subset[OF assms(1)]) simp
  then have "distinct (map K (sort_key K gs))"
    using assms(2) by (simp add: distinct_map)
  ultimately have "sorted_wrt (<) (map K (sort_key K gs))"
    by (simp add: strict_sorted_iff)
  then show ?thesis by (simp add: sorted_wrt_map)
qed

lemma order_by_desc_groups:
  "order_by_desc nl f xs =
     concat (map (\<lambda>g. filter (\<lambda>x. f x = g) xs) (order_by_desc nl (\<lambda>g. g) (remdups (map f xs))))"
  unfolding order_by_desc_def
  by (rule sort_key_groups[OF inj_null_rank_desc])

lemma order_by_asc_groups:
  "order_by_asc nl f xs =
     concat (map (\<lambda>g. filter (\<lambda>x. f x = g) xs) (order_by_asc nl (\<lambda>g. g) (remdups (map f xs))))"
  unfolding order_by_asc_def
  by (rule sort_key_groups[OF inj_null_rank])

lemma order_by_desc_keys:
  assumes "distinct gs"
  shows "sorted_wrt (key_before_desc nl) (order_by_desc nl (\<lambda>g. g) gs)"
    and "distinct (order_by_desc nl (\<lambda>g. g) gs)"
    and "set (order_by_desc nl (\<lambda>g. g) gs) = set gs"
  using sorted_wrt_sort_key_distinct[OF inj_null_rank_desc assms, of nl] assms
  by (simp_all add: order_by_desc_def null_rank_desc_less)

lemma order_by_asc_keys:
  assumes "distinct gs"
  shows "sorted_wrt (key_before_asc nl) (order_by_asc nl (\<lambda>g. g) gs)"
    and "distinct (order_by_asc nl (\<lambda>g. g) gs)"
    and "set (order_by_asc nl (\<lambda>g. g) gs) = set gs"
  using sorted_wrt_sort_key_distinct[OF inj_null_rank assms, of nl] assms
  by (simp_all add: order_by_asc_def null_rank_less)

section \<open>The result dictionary\<close>

lemma dict_append_new:
  "k \<notin> fst ` set d \<Longrightarrow> dict_append k v d = d @ [(k, [v])]"
  by (induction d) auto

lemma dict_append_last:
  "k \<notin> fst ` set d \<Longrightarrow> dict_append k v (d @ [(k, vs)]) = d @ [(k, vs @ [v])]"
  by (induction d) auto

lemma dict_append_map:
  assumes "distinct ks"
  shows "dict_append k v (map (\<lambda>g. (g, F g)) ks) =
     (if k \<in> set ks then map (\<lambda>g. (g, if g = k then F g @ [v] else F g)) ks
      else map (\<lambda>g. (g, F g)) ks @ [(k, [v])])"
  using assms by (induction ks) auto

lemma rows_returned_dict_append:
  "rows_returned (dict_append k v d) = Suc (rows_returned d)"
  by (induction d) (auto simp: rows_returned_def)

lemma dict_append_entries:
  assumes "(g, rs) \<in> set (dict_append k v d)"
  shows "(g, rs) \<in> set d \<or> (g = k \<and> (rs = [v] \<or> (\<exists>rs0. (k, rs0) \<in> set d \<and> rs = rs0 @ [v])))"
  using assms by (induction d) (auto split: if_splits)

lemma dict_append_keys:
  "map fst (dict_append k v d) = (if k \<in> set (map fst d) then map fst d else map fst d @ [k])"
  by (induction d) force+

lemma distinct_dict_append:
  "distinct (map fst d) \<Longrightarrow> distinct (map fst (dict_append k v d))"
  by (simp add: dict_append_keys)

text \<open>
  Grouping any sequence of rows: one entry per key, the keys in the order they are first
  met, each with the rows of that key in the order they come.
\<close>

lemma fold_dict_append_first_seen:
  "fold (\<lambda>r d. dict_append (f r) r d) xs [] =
     map (\<lambda>g. (g, filter (\<lambda>r. f r = g) xs)) (rev (remdups (rev (map f xs))))"
proof (induction xs rule: rev_induct)
  case Nil
  then show ?case by simp
next
  case (snoc x xs)
  let ?ks = "rev (remdups (rev (map f xs)))"
  have d: "distinct ?ks" and s: "set ?ks = f ` set xs" by simp_all
  show ?case
  proof (cases "f x \<in> f ` set xs")
    case True
    then have k: "rev (remdups (rev (map f (xs @ [x])))) = ?ks" by simp
    show ?thesis
      using True by (simp only: fold_append comp_apply fold_simps snoc.IH dict_append_map[OF d] s k)
        (auto simp: id_def)
  next
    case False
    then have k: "rev (remdups (rev (map f (xs @ [x])))) = ?ks @ [f x]" by simp
    have e: "filter (\<lambda>r. f r = f x) xs = []"
      using False by (auto simp: filter_empty_conv image_iff)
    show ?thesis
      using False by (simp only: fold_append comp_apply fold_simps snoc.IH dict_append_map[OF d] s k)
        (auto simp: id_def e)
  qed
qed

lemma view_group_rows_first_seen:
  "view_group_rows sub_qs =
     map (\<lambda>g. (g, filter (\<lambda>r. view_grouping_id r = g) sub_qs))
       (rev (remdups (rev (map view_grouping_id sub_qs))))"
  by (simp add: view_group_rows_def fold_dict_append_first_seen)

lemma first_seen_concat_groups:
  assumes "distinct gs" and "\<And>g. g \<in> set gs \<Longrightarrow> g \<in> f ` set xs"
  shows "rev (remdups (rev (map f (concat (map (\<lambda>g. filter (\<lambda>x. f x = g) xs) gs))))) = gs"
  using assms
proof (induction gs rule: rev_induct)
  case Nil
  then show ?case by simp
next
  case (snoc g gs)
  let ?pre = "concat (map (\<lambda>g. filter (\<lambda>x. f x = g) xs) gs)"
  let ?grp = "filter (\<lambda>x. f x = g) xs"
  have ih: "rev (remdups (rev (map f ?pre))) = gs" using snoc by simp
  from snoc.prems have gx: "g \<in> f ` set xs" and gn: "g \<notin> set gs" by auto
  then obtain n where n: "map f ?grp = replicate (Suc n) g"
  proof -
    have "map f ?grp = map (\<lambda>x. g) ?grp" by (rule map_cong) auto
    moreover have "?grp \<noteq> []" using gx by (auto simp: filter_empty_conv)
    then obtain m where "length ?grp = Suc m" by (cases ?grp) auto
    ultimately have "map f ?grp = replicate (Suc m) g" by (simp add: map_replicate_const)
    then show ?thesis using that by blast
  qed
  have sp: "set (map f ?pre) \<subseteq> set gs" by auto
  have r: "remdups (replicate (Suc n) g @ ys) = g # remdups ys" if "g \<notin> set ys" for ys
    using that by (induction n) auto
  have "rev (map f (?pre @ ?grp)) = replicate (Suc n) g @ rev (map f ?pre)"
    by (simp add: n del: replicate.simps)
  moreover have "g \<notin> set (rev (map f ?pre))" using sp gn by auto
  ultimately have "remdups (rev (map f (?pre @ ?grp))) = g # remdups (rev (map f ?pre))"
    using r by simp
  then show ?case using ih by simp
qed

section \<open>What the denormalised form returns\<close>

lemma sql_count_all: "sql_count (map (\<lambda>r. Some (c r)) ys) = length ys"
  by (simp add: sql_count_def filter_map comp_def)

lemma view_counts_query_eq:
  "view_counts_query qs =
     map (\<lambda>g. \<lparr>counts_grouping_id = g,
               total = length (filter (\<lambda>r. view_grouping_id r = g) (view_rows qs))\<rparr>)
       (order_by_desc (view_nulls_largest qs) (\<lambda>g. g)
          (remdups (map view_grouping_id (view_rows qs))))"
proof -
  have "sql_count (map (\<lambda>r. if view_grouping_id r = None then Some (1::int) else Some 1) ys) =
      length ys" for ys :: "mapping_view list"
    using sql_count_all[of "\<lambda>r. 1::int" ys] by simp
  then show ?thesis by (simp add: view_counts_query_def)
qed

lemma view_counts_valid_rows:
  "view_counts_valid vqs \<Longrightarrow> view_counts_rows vqs = view_counts_query vqs"
  by (auto simp: view_counts_valid_def view_counts_rows_def
      split: option.splits counts_queryset.splits)

lemma view_fetch_groups:
  assumes "view_counts_valid vqs"
  shows "take (spec_row_count (view_counts_rows vqs) offset limit)
           (drop (spec_row_offset (view_counts_rows vqs) offset)
              (order_by_desc (view_nulls_largest vqs) view_grouping_id (view_rows vqs))) =
         concat (map (\<lambda>g. filter (\<lambda>r. view_grouping_id r = g) (view_rows vqs))
                   (take (nat limit) (drop (nat offset)
                      (map counts_grouping_id (view_counts_rows vqs)))))"
proof -
  let ?gs = "order_by_desc (view_nulls_largest vqs) (\<lambda>g. g)
          (remdups (map view_grouping_id (view_rows vqs)))"
  let ?grp = "\<lambda>g. filter (\<lambda>r. view_grouping_id r = g) (view_rows vqs)"
  have cs: "view_counts_rows vqs = map (\<lambda>g. \<lparr>counts_grouping_id = g, total = length (?grp g)\<rparr>) ?gs"
    by (simp add: view_counts_valid_rows[OF assms] view_counts_query_eq)
  have keys: "map counts_grouping_id (view_counts_rows vqs) = ?gs"
    by (simp add: cs comp_def)
  have o: "spec_row_offset (view_counts_rows vqs) offset =
      sum_list (map length (take (nat offset) (map ?grp ?gs)))"
    by (simp add: spec_row_offset_eq cs take_map comp_def)
  have c: "spec_row_count (view_counts_rows vqs) offset limit =
      sum_list (map length (take (nat limit) (drop (nat offset) (map ?grp ?gs))))"
    by (simp add: spec_row_count_def cs take_map drop_map comp_def)
  have "order_by_desc (view_nulls_largest vqs) view_grouping_id (view_rows vqs) =
      concat (map ?grp ?gs)"
    by (rule order_by_desc_groups)
  then show ?thesis
    by (simp only: o c take_drop_concat keys) (simp add: take_map drop_map)
qed

lemma view_grouped_slice_groups:
  assumes "view_counts_valid vqs" "0 \<le> offset" "0 \<le> limit"
  shows "fst (MappingViewQuerySet_grouped_slice vqs offset limit) =
     Inr (map (\<lambda>g. (g, filter (\<lambda>r. view_grouping_id r = g) (view_rows vqs)))
            (take (nat limit) (drop (nat offset)
               (map counts_grouping_id (view_counts_rows vqs)))))"
proof -
  let ?gs = "order_by_desc (view_nulls_largest vqs) (\<lambda>g. g)
          (remdups (map view_grouping_id (view_rows vqs)))"
  let ?sel = "take (nat limit) (drop (nat offset) (map counts_grouping_id (view_counts_rows vqs)))"
  have keys: "map counts_grouping_id (view_counts_rows vqs) = ?gs"
    by (simp add: view_counts_valid_rows[OF assms(1)] view_counts_query_eq comp_def)
  have d: "distinct ?gs" and s: "set ?gs = view_grouping_id ` set (view_rows vqs)"
    using order_by_desc_keys[of "remdups (map view_grouping_id (view_rows vqs))"
        "view_nulls_largest vqs"] by simp_all
  have dsel: "distinct ?sel"
    unfolding keys using d by (simp add: distinct_drop)
  have ssel: "\<And>g. g \<in> set ?sel \<Longrightarrow> g \<in> view_grouping_id ` set (view_rows vqs)"
    unfolding keys using s in_set_dropD in_set_takeD by fast
  have f: "\<And>g. g \<in> set ?sel \<Longrightarrow>
      filter (\<lambda>r. view_grouping_id r = g)
        (concat (map (\<lambda>g. filter (\<lambda>r. view_grouping_id r = g) (view_rows vqs)) ?sel)) =
      filter (\<lambda>r. view_grouping_id r = g) (view_rows vqs)"
    by (simp only: filter_concat_groups[OF dsel] if_True)
  show ?thesis
    by (simp only: view_grouped_slice_nonneg[OF assms(2,3)] view_fetch_groups[OF assms(1)]
        view_group_rows_first_seen first_seen_concat_groups[OF dsel ssel])
       (simp add: f cong: map_cong)
qed

lemma view_group_keys_ordered:
  "sorted_wrt (key_before_desc (view_nulls_largest vqs))
     (map counts_grouping_id (view_counts_query vqs))
   \<and> distinct (map counts_grouping_id (view_counts_query vqs))
   \<and> set (map counts_grouping_id (view_counts_query vqs)) =
       view_grouping_id ` set (view_rows vqs)"
proof -
  have keys: "map counts_grouping_id (view_counts_query vqs) =
      order_by_desc (view_nulls_largest vqs) (\<lambda>g. g)
          (remdups (map view_grouping_id (view_rows vqs)))"
    by (simp add: view_counts_query_eq comp_def)
  show ?thesis
    unfolding keys
    using order_by_desc_keys[of "remdups (map view_grouping_id (view_rows vqs))"
        "view_nulls_largest vqs"] by simp
qed

lemma view_totals:
  "c \<in> set (view_counts_query vqs) \<Longrightarrow>
     total c = length (filter (\<lambda>r. view_grouping_id r = counts_grouping_id c) (view_rows vqs))"
  by (auto simp: view_counts_query_eq)

section \<open>The latest row of a selection\<close>

lemma latest_empty: "(latest f xs = Inl e) = (xs = [] \<and> e = DoesNotExist)"
  by (cases xs) (auto split: sum.splits)

lemma latest_exists: "xs \<noteq> [] \<Longrightarrow> \<exists>x. latest f xs = Inr x"
  by (cases xs) (auto split: sum.splits)

lemma latest_greatest:
  assumes "latest f xs = Inr x"
  shows "x \<in> set xs \<and> (\<forall>y \<in> set xs. f y \<le> f x)"
  using assms
proof (induction xs arbitrary: x)
  case Nil
  then show ?case by simp
next
  case (Cons a xs)
  show ?case
  proof (cases "latest f xs")
    case (Inl e)
    then have "xs = []" by (simp add: latest_empty)
    with Cons.prems Inl show ?thesis by simp
  next
    case (Inr y)
    from Cons.IH[OF Inr] Cons.prems Inr show ?thesis
      by (auto split: if_splits)
  qed
qed

lemma latest_mapping_history_entry:
  assumes "latest_mapping_history result = Inr h"
  shows "h \<in> set (latest_entries result)"
  using latest_greatest[OF assms[unfolded latest_mapping_history_def]]
  by (simp add: latest_entries_def)

lemma latest_mapping_history_exists:
  "mapping_history result \<noteq> [] \<Longrightarrow> \<exists>h. latest_mapping_history result = Inr h"
  by (simp add: latest_mapping_history_def latest_exists)

lemma species_latest_snapshot:
  assumes "species_latest objects sp = Inr s"
  shows "s \<in> set (latest_snapshots objects sp)"
  using latest_greatest[OF assms[unfolded species_latest_def]]
  by (auto simp: latest_snapshots_def)

lemma species_latest_exists:
  assumes "latest_snapshots objects sp \<noteq> []"
  shows "\<exists>s. species_latest objects sp = Inr s"
proof -
  from assms obtain s where "s \<in> set (latest_snapshots objects sp)"
    by (cases "latest_snapshots objects sp") auto
  then have "s \<in> set objects \<and> uniprot_taxid s = sp"
    by (simp add: latest_snapshots_def)
  then have "filter (\<lambda>r. uniprot_taxid r = sp) objects \<noteq> []"
    by (auto simp: filter_empty_conv)
  then show ?thesis by (simp add: species_latest_def latest_exists)
qed

section \<open>One pass of the loop of the normalised form\<close>

lemma grouped_slice_step_cases:
  assumes "grouped_slice_step objects result (d, added) = Inr st'"
  obtains (skip) "st' = (d, added)"
  | (add) g where "is_eligible objects result g"
      and "mapping_id result \<notin> added g"
      and "st' = (dict_append g result d,
                  added(g := insert (mapping_id result) (added g)))"
proof -
  from assms obtain h where h: "latest_mapping_history result = Inr h"
    by (auto simp: grouped_slice_step_def split: sum.splits)
  show ?thesis
  proof (cases "mapping_id result \<in> added (grouping_id h)")
    case True
    with assms h have "st' = (d, added)" by (simp add: grouped_slice_step_def)
    then show ?thesis by (rule skip)
  next
    case False
    with assms h obtain s
      where s: "species_latest objects (uniprot_taxid (release_mapping_history h)) = Inr s"
      by (auto simp: grouped_slice_step_def Let_def split: sum.splits)
    show ?thesis
    proof (cases "release_mapping_history_id (release_mapping_history h) =
        release_mapping_history_id s")
      case True
      have e: "is_eligible objects result (grouping_id h)"
        unfolding is_eligible_def
        by (rule bexI[OF _ latest_mapping_history_entry[OF h]])
           (simp add: bexI[OF _ species_latest_snapshot[OF s]] True)
      have n: "mapping_id result \<notin> added (grouping_id h)" by (rule False)
      have "st' = (dict_append (grouping_id h) result d,
          added(grouping_id h := insert (mapping_id result) (added (grouping_id h))))"
        using assms h s True False by (simp add: grouped_slice_step_def Let_def)
      with e n show ?thesis by (rule add)
    next
      case False
      with assms h s \<open>mapping_id result \<notin> added (grouping_id h)\<close>
      have "st' = (d, added)" by (simp add: grouped_slice_step_def Let_def)
      then show ?thesis by (rule skip)
    qed
  qed
qed

lemma stale_step:
  assumes "stale objects result"
  shows "grouped_slice_step objects result st = Inr st"
proof -
  obtain d added where st: "st = (d, added)" by (cases st)
  from assms have "mapping_history result \<noteq> []" by (simp add: stale_def)
  then obtain h where h: "latest_mapping_history result = Inr h"
    using latest_mapping_history_exists by blast
  from latest_mapping_history_entry[OF h] assms
  have ne: "latest_snapshots objects (uniprot_taxid (release_mapping_history h)) \<noteq> []"
    and neq: "\<And>s. s \<in> set (latest_snapshots objects (uniprot_taxid (release_mapping_history h)))
        \<Longrightarrow> release_mapping_history_id s \<noteq> release_mapping_history_id (release_mapping_history h)"
    by (auto simp: stale_def)
  from species_latest_exists[OF ne] obtain s
    where s: "species_latest objects (uniprot_taxid (release_mapping_history h)) = Inr s" by blast
  from neq[OF species_latest_snapshot[OF s]] h s show ?thesis
    by (simp add: grouped_slice_step_def st Let_def)
qed

lemma current_step:
  assumes "current objects result g"
  shows "grouped_slice_step objects result (d, added) =
     Inr (if mapping_id result \<in> added g then (d, added)
          else (dict_append g result d, added(g := insert (mapping_id result) (added g))))"
proof -
  from assms have "mapping_history result \<noteq> []" by (simp add: current_def)
  then obtain h where h: "latest_mapping_history result = Inr h"
    using latest_mapping_history_exists by blast
  from latest_mapping_history_entry[OF h] assms
  have g: "grouping_id h = g"
    and ne: "latest_snapshots objects (uniprot_taxid (release_mapping_history h)) \<noteq> []"
    and eq: "\<And>s. s \<in> set (latest_snapshots objects (uniprot_taxid (release_mapping_history h)))
        \<Longrightarrow> release_mapping_history_id s = release_mapping_history_id (release_mapping_history h)"
    by (auto simp: current_def)
  from species_latest_exists[OF ne] obtain s
    where s: "species_latest objects (uniprot_taxid (release_mapping_history h)) = Inr s" by blast
  from eq[OF species_latest_snapshot[OF s]] h s g show ?thesis
    by (simp add: grouped_slice_step_def Let_def)
qed

lemma eligible_not_stale: "is_eligible objects result g \<Longrightarrow> \<not> stale objects result"
  by (auto simp: is_eligible_def stale_def)

lemma current_eligible: "current objects result g \<Longrightarrow> is_eligible objects result g"
proof -
  assume c: "current objects result g"
  then have "mapping_history result \<noteq> []" by (simp add: current_def)
  then obtain h where h: "latest_mapping_history result = Inr h"
    using latest_mapping_history_exists by blast
  from latest_mapping_history_entry[OF h] c
  have "grouping_id h = g"
    and ne: "latest_snapshots objects (uniprot_taxid (release_mapping_history h)) \<noteq> []"
    and eq: "\<And>s. s \<in> set (latest_snapshots objects (uniprot_taxid (release_mapping_history h)))
        \<Longrightarrow> release_mapping_history_id s = release_mapping_history_id (release_mapping_history h)"
    by (auto simp: current_def)
  moreover from ne obtain s
    where "s \<in> set (latest_snapshots objects (uniprot_taxid (release_mapping_history h)))"
    by (cases "latest_snapshots objects (uniprot_taxid (release_mapping_history h))") auto
  ultimately show ?thesis
    unfolding is_eligible_def
    by (intro bexI[OF _ latest_mapping_history_entry[OF h]]) (simp, blast)
qed

section \<open>The loop of the normalised form\<close>

lemma grouped_slice_loop_invariant:
  assumes step: "\<And>result st st'. I st \<Longrightarrow> grouped_slice_step objects result st = Inr st' \<Longrightarrow> I st'"
    and "I st" and "grouped_slice_loop objects sub_qs st = Inr st'"
  shows "I st'"
  using assms(2,3)
proof (induction sub_qs arbitrary: st)
  case Nil
  then show ?case by simp
next
  case (Cons result sub_qs)
  from Cons.prems(2) obtain st1 where s1: "grouped_slice_step objects result st = Inr st1"
    and l: "grouped_slice_loop objects sub_qs st1 = Inr st'"
    by (auto split: sum.splits)
  from step[OF Cons.prems(1) s1] have "I st1" .
  from Cons.IH[OF this l] show ?case .
qed

lemma grouped_slice_loop_rows:
  assumes "grouped_slice_loop objects sub_qs st = Inr st'"
  shows "rows_returned (fst st') \<le> rows_returned (fst st) + length sub_qs"
  using assms
proof (induction sub_qs arbitrary: st)
  case Nil
  then show ?case by simp
next
  case (Cons result sub_qs)
  from Cons.prems obtain st1 where s1: "grouped_slice_step objects result st = Inr st1"
    and l: "grouped_slice_loop objects sub_qs st1 = Inr st'"
    by (auto split: sum.splits)
  have "rows_returned (fst st1) \<le> Suc (rows_returned (fst st))"
    using s1 by (cases st) (auto elim!: grouped_slice_step_cases simp: rows_returned_dict_append)
  with Cons.IH[OF l] show ?case by simp
qed

lemma map_of_dict_append:
  "map_of (dict_append k v d) =
     (map_of d)(k \<mapsto> (case map_of d k of None \<Rightarrow> [v] | Some rs \<Rightarrow> rs @ [v]))"
  by (induction d) (auto simp: fun_upd_twist)

lemma loop_invariant_step:
  assumes "loop_invariant objects st"
    and "grouped_slice_step objects result st = Inr st'"
  shows "loop_invariant objects st'"
proof -
  obtain d added where st: "st = (d, added)" by (cases st)
  from assms(2)[unfolded st] show ?thesis
  proof (cases rule: grouped_slice_step_cases)
    case skip
    with assms(1) st show ?thesis by simp
  next
    case (add k)
    have dk: "distinct (map fst d)" using assms(1) st by (simp add: loop_invariant_def)
    have inv: "case map_of d g of
              None \<Rightarrow> added g = {}
            | Some rs \<Rightarrow> (\<forall>r \<in> set rs. is_eligible objects r g) \<and>
                         distinct (map mapping_id rs) \<and> mapping_id ` set rs = added g" for g
      using assms(1)[unfolded loop_invariant_def st fst_conv snd_conv] by blast
    have "case map_of (dict_append k result d) g of
              None \<Rightarrow> (added(k := insert (mapping_id result) (added k))) g = {}
            | Some rs \<Rightarrow> (\<forall>r \<in> set rs. is_eligible objects r g) \<and>
                         distinct (map mapping_id rs) \<and>
                         mapping_id ` set rs = (added(k := insert (mapping_id result) (added k))) g"
      for g
      using inv[of g] inv[of k] add(1,2)
      by (auto simp: map_of_dict_append split: option.splits)
    then show ?thesis
      unfolding add(3) loop_invariant_def fst_conv snd_conv
      using distinct_dict_append[OF dk] by blast
  qed
qed

lemma loop_invariant_initial: "loop_invariant objects ([], \<lambda>g. {})"
  by (simp add: loop_invariant_def)

lemma loop_invariant_result:
  assumes "grouped_slice_loop objects sub_qs ([], \<lambda>g. {}) = Inr st'"
  shows "loop_invariant objects st'"
  by (rule grouped_slice_loop_invariant[where I = "loop_invariant objects", OF _ _ assms])
     (erule (1) loop_invariant_step, rule loop_invariant_initial)

lemma loop_invariant_entries:
  assumes "loop_invariant objects st" and "(g, rs) \<in> set (fst st)"
  shows "(\<forall>r \<in> set rs. is_eligible objects r g) \<and> distinct (map mapping_id rs)
     \<and> mapping_id ` set rs = snd st g"
proof -
  from assms have "map_of (fst st) g = Some rs" by (simp add: loop_invariant_def)
  with assms(1) show ?thesis
    unfolding loop_invariant_def by (metis (mono_tags, lifting) option.simps(5))
qed

lemma loop_invariant_recorded:
  assumes "loop_invariant objects st" and "i \<in> snd st g"
  shows "\<exists>rs. (g, rs) \<in> set (fst st) \<and> i \<in> mapping_id ` set rs"
proof (cases "map_of (fst st) g")
  case None
  with assms show ?thesis unfolding loop_invariant_def by (metis (mono_tags, lifting) empty_iff option.simps(4))
next
  case (Some rs)
  with assms have "mapping_id ` set rs = snd st g"
    unfolding loop_invariant_def by (metis (mono_tags, lifting) option.simps(5))
  moreover from Some have "(g, rs) \<in> set (fst st)" by (rule map_of_SomeD)
  ultimately show ?thesis using assms(2) by blast
qed

text \<open>A row current under a key is recorded for that key once the loop has passed it.\<close>

lemma grouped_slice_step_mono:
  assumes "grouped_slice_step objects result st = Inr st'"
  shows "snd st g \<subseteq> snd st' g"
  using assms by (cases st) (auto elim!: grouped_slice_step_cases)

lemma grouped_slice_loop_mono:
  assumes "grouped_slice_loop objects sub_qs st = Inr st'"
  shows "snd st g \<subseteq> snd st' g"
  using assms
proof (induction sub_qs arbitrary: st)
  case Nil
  then show ?case by simp
next
  case (Cons result sub_qs)
  from Cons.prems obtain st1 where s1: "grouped_slice_step objects result st = Inr st1"
    and l: "grouped_slice_loop objects sub_qs st1 = Inr st'"
    by (auto split: sum.splits)
  from grouped_slice_step_mono[OF s1] Cons.IH[OF l] show ?case by blast
qed

lemma grouped_slice_loop_current:
  assumes "grouped_slice_loop objects sub_qs st = Inr st'"
    and "r \<in> set sub_qs" and "current objects r g"
  shows "mapping_id r \<in> snd st' g"
  using assms(1,2)
proof (induction sub_qs arbitrary: st)
  case Nil
  then show ?case by simp
next
  case (Cons result sub_qs)
  from Cons.prems(1) obtain st1 where s1: "grouped_slice_step objects result st = Inr st1"
    and l: "grouped_slice_loop objects sub_qs st1 = Inr st'"
    by (auto split: sum.splits)
  show ?case
  proof (cases "r = result")
    case True
    obtain d added where st: "st = (d, added)" by (cases st)
    from s1 current_step[OF assms(3), of d added] True st
    have "mapping_id r \<in> snd st1 g" by (auto split: if_splits)
    with grouped_slice_loop_mono[OF l, of g] show ?thesis by blast
  next
    case False
    with Cons.prems(2) have "r \<in> set sub_qs" by simp
    from Cons.IH[OF l this] show ?thesis .
  qed
qed

text \<open>Rows that are all current and pairwise different are all kept.\<close>

lemma grouped_slice_loop_all_kept:
  assumes "distinct (map mapping_id sub_qs)"
    and "\<forall>r \<in> set sub_qs. \<exists>g. current objects r g"
    and "\<forall>g. snd st g \<inter> mapping_id ` set sub_qs = {}"
  shows "\<exists>st'. grouped_slice_loop objects sub_qs st = Inr st' \<and>
           rows_returned (fst st') = rows_returned (fst st) + length sub_qs"
  using assms
proof (induction sub_qs arbitrary: st)
  case Nil
  then show ?case by simp
next
  case (Cons result sub_qs)
  obtain d added where st: "st = (d, added)" by (cases st)
  from Cons.prems(2) obtain g where g: "current objects result g" by auto
  from Cons.prems(3) st have n: "mapping_id result \<notin> added g" by auto
  let ?st1 = "(dict_append g result d, added(g := insert (mapping_id result) (added g)))"
  have s1: "grouped_slice_step objects result st = Inr ?st1"
    using current_step[OF g, of d added] n st by simp
  have "\<forall>g'. snd ?st1 g' \<inter> mapping_id ` set sub_qs = {}"
    using Cons.prems(1,3) st by auto
  from Cons.IH[OF _ _ this] Cons.prems(1,2)
  obtain st' where "grouped_slice_loop objects sub_qs ?st1 = Inr st'"
    and "rows_returned (fst st') = rows_returned (fst ?st1) + length sub_qs" by auto
  with s1 show ?case by (simp add: rows_returned_dict_append st)
qed

section \<open>What the normalised form fetches\<close>

lemma sql_count_group:
  "sql_count (map snd (filter (\<lambda>j. snd j = g) js)) =
     (if g = None then 0 else length (filter (\<lambda>j. snd j = g) js))"
  by (induction js) (auto simp: sql_count_def)

lemma counts_query_eq:
  "counts_query qs =
     map (\<lambda>g. \<lparr>counts_grouping_id = g,
               total = (if g = None then 0
                        else length (filter (\<lambda>j. snd j = g) (join_mapping_history (rows qs))))\<rparr>)
       (order_by_asc (nulls_largest qs) (\<lambda>g. g)
          (remdups (map snd (join_mapping_history (rows qs)))))"
  by (simp add: counts_query_def Let_def sql_count_group)

lemma counts_valid_rows: "counts_valid qs \<Longrightarrow> counts_rows qs = counts_query qs"
  by (auto simp: counts_valid_def counts_rows_def split: option.splits counts_queryset.splits)

lemma group_keys_ordered:
  "sorted_wrt (key_before_asc (nulls_largest qs)) (map counts_grouping_id (counts_query qs))
   \<and> distinct (map counts_grouping_id (counts_query qs))
   \<and> set (map counts_grouping_id (counts_query qs)) = snd ` set (join_mapping_history (rows qs))"
proof -
  have keys: "map counts_grouping_id (counts_query qs) =
      order_by_asc (nulls_largest qs) (\<lambda>g. g)
          (remdups (map snd (join_mapping_history (rows qs))))"
    by (simp add: counts_query_eq comp_def)
  show ?thesis
    unfolding keys
    using order_by_asc_keys[of "remdups (map snd (join_mapping_history (rows qs)))"
        "nulls_largest qs"] by simp
qed

lemma sum_total_groups:
  assumes "None \<notin> set gs"
  shows "sum_list (map total (map (\<lambda>g. \<lparr>counts_grouping_id = g,
               total = (if g = None then 0 else length (grp g))\<rparr>) gs)) =
         sum_list (map length (map grp gs))"
  using assms by (induction gs) auto

lemma fetch_groups:
  assumes "counts_valid qs"
    and "None \<notin> set (take (nat offset + nat limit) (map counts_grouping_id (counts_rows qs)))"
  shows "fetch_rows qs (spec_row_offset (counts_rows qs) offset)
           (spec_row_count (counts_rows qs) offset limit) =
         Inr (map fst
                (concat (map (\<lambda>g. filter (\<lambda>j. snd j = g) (join_mapping_history (rows qs)))
                           (take (nat limit) (drop (nat offset)
                              (map counts_grouping_id (counts_rows qs)))))))"
proof -
  let ?js = "join_mapping_history (rows qs)"
  let ?gs = "order_by_asc (nulls_largest qs) (\<lambda>g. g) (remdups (map snd ?js))"
  let ?grp = "\<lambda>g. filter (\<lambda>j. snd j = g) ?js"
  let ?row = "\<lambda>g. \<lparr>counts_grouping_id = g, total = (if g = None then 0 else length (?grp g))\<rparr>"
  have cs: "counts_rows qs = map ?row ?gs"
    by (simp add: counts_valid_rows[OF assms(1)] counts_query_eq)
  have keys: "map counts_grouping_id (counts_rows qs) = ?gs"
    by (simp add: cs comp_def)
  have n1: "None \<notin> set (take (nat offset) ?gs)"
    using assms(2) unfolding keys
    by (metis le_add1 set_take_subset_set_take subsetD)
  have n2: "None \<notin> set (take (nat limit) (drop (nat offset) ?gs))"
  proof
    assume "None \<in> set (take (nat limit) (drop (nat offset) ?gs))"
    then have "None \<in> set (drop (nat offset) (take (nat offset + nat limit) ?gs))"
      by (simp add: drop_take add.commute)
    then have "None \<in> set (take (nat offset + nat limit) ?gs)" by (rule in_set_dropD)
    with assms(2) keys show False by simp
  qed
  have o: "spec_row_offset (counts_rows qs) offset =
      sum_list (map length (take (nat offset) (map ?grp ?gs)))"
    using sum_total_groups[OF n1, of ?grp]
    by (simp add: spec_row_offset_eq cs take_map)
  have c: "spec_row_count (counts_rows qs) offset limit =
      sum_list (map length (take (nat limit) (drop (nat offset) (map ?grp ?gs))))"
    using sum_total_groups[OF n2, of ?grp]
    by (simp add: spec_row_count_def cs take_map drop_map)
  have "order_by_asc (nulls_largest qs) snd ?js = concat (map ?grp ?gs)"
    by (rule order_by_asc_groups)
  then show ?thesis
    by (simp only: fetch_rows_eq o c take_drop_concat keys) (simp add: take_map drop_map)
qed

lemma totals_positive_no_null:
  assumes "counts_valid qs" and "0 \<notin> set (map total (counts_rows qs))"
  shows "None \<notin> set (map counts_grouping_id (counts_rows qs))"
  using assms(2) unfolding counts_valid_rows[OF assms(1)] counts_query_eq
  by (auto simp: image_iff)

section \<open>The row range and the example of the totals 3, 2, 5\<close>

lemma three_totals:
  assumes "map total cs = [3, 2, 5]"
  obtains a b c where "cs = [a, b, c]" "total a = 3" "total b = 2" "total c = 5"
  using assms by (auto simp: map_eq_Cons_conv)

lemma row_range_example:
  assumes "map total counts = [3, 2, 5]"
  shows "row_range counts 1 1 = Inr (3, 2)"
  using assms by (elim three_totals) (simp add: row_range_def qs_getitem_def)

lemma two_elements: "length xs = 2 \<Longrightarrow> \<exists>x y. xs = [x, y]"
  by (cases xs; cases "tl xs") auto

lemma view_example:
  assumes v: "view_counts_valid vqs" and t: "map total (view_counts_rows vqs) = [3, 2, 5]"
  shows "\<exists>g r1 r2.
           map counts_grouping_id (view_counts_rows vqs) ! 1 = g
           \<and> filter (\<lambda>r. view_grouping_id r = g) (view_rows vqs) = [r1, r2]
           \<and> take 2 (drop 3 (order_by_desc (view_nulls_largest vqs) view_grouping_id
                               (view_rows vqs))) = [r1, r2]
           \<and> fst (MappingViewQuerySet_grouped_slice vqs 1 1) = Inr [(g, [r1, r2])]"
proof -
  from t obtain a b c where cs: "view_counts_rows vqs = [a, b, c]"
    and ta: "total a = 3" and tb: "total b = 2" by (elim three_totals)
  let ?g = "counts_grouping_id b"
  have "b \<in> set (view_counts_query vqs)"
    using cs view_counts_valid_rows[OF v] by simp
  from view_totals[OF this] tb
  have "length (filter (\<lambda>r. view_grouping_id r = ?g) (view_rows vqs)) = 2" by simp
  from two_elements[OF this] obtain r1 r2
    where grp: "filter (\<lambda>r. view_grouping_id r = ?g) (view_rows vqs) = [r1, r2]" by blast
  have o: "spec_row_offset (view_counts_rows vqs) 1 = 3"
    and c: "spec_row_count (view_counts_rows vqs) 1 1 = 2"
    by (simp_all add: cs ta tb spec_row_offset_def spec_row_count_def)
  have f: "take 2 (drop 3 (order_by_desc (view_nulls_largest vqs) view_grouping_id
                               (view_rows vqs))) = [r1, r2]"
    using view_fetch_groups[OF v, of 1 1, unfolded o c] by (simp add: cs grp)
  have e: "fst (MappingViewQuerySet_grouped_slice vqs 1 1) = Inr [(?g, [r1, r2])]"
    using view_grouped_slice_groups[OF v, of 1 1] by (simp add: cs grp)
  have k: "map counts_grouping_id (view_counts_rows vqs) ! 1 = ?g" by (simp add: cs)
  show ?thesis
    by (rule exI[of _ ?g], rule exI[of _ r1], rule exI[of _ r2], intro conjI)
       (rule k, rule grp, rule f, rule e)
qed

lemma two_current_rows:
  assumes "current objects m1 g" "current objects m2 g" "mapping_id m1 \<noteq> mapping_id m2"
  shows "grouped_slice_loop objects [m1, m2] ([], \<lambda>g. {}) =
     Inr ([(g, [m1, m2])], (\<lambda>g. {})(g := {mapping_id m2, mapping_id m1}))"
  using assms(3) by (simp add: current_step[OF assms(1)] current_step[OF assms(2)])

lemma normalised_example:
  assumes v: "counts_valid qs" and t: "map total (counts_rows qs) = [3, 2, 5]"
  shows "\<exists>g j1 j2.
           map counts_grouping_id (counts_rows qs) ! 1 = g
           \<and> filter (\<lambda>j. snd j = g) (join_mapping_history (rows qs)) = [j1, j2]
           \<and> fetch_rows qs 3 2 = Inr [fst j1, fst j2]
           \<and> fst (MappingQuerySet_grouped_slice objects qs 1 1) =
               (case grouped_slice_loop objects [fst j1, fst j2] ([], \<lambda>g. {}) of
                  Inl e \<Rightarrow> Inl e
                | Inr st \<Rightarrow> Inr (fst st))
           \<and> (mapping_id (fst j1) \<noteq> mapping_id (fst j2) \<and>
                current objects (fst j1) g \<and> current objects (fst j2) g \<longrightarrow>
                fst (MappingQuerySet_grouped_slice objects qs 1 1) =
                  Inr [(g, [fst j1, fst j2])])"
proof -
  from t obtain a b c where cs: "counts_rows qs = [a, b, c]"
    and ta: "total a = 3" and tb: "total b = 2" by (elim three_totals)
  let ?g = "counts_grouping_id b"
  let ?js = "join_mapping_history (rows qs)"
  have nn: "None \<notin> set (map counts_grouping_id (counts_rows qs))"
    by (rule totals_positive_no_null[OF v]) (simp add: t)
  moreover have "?g \<in> set (map counts_grouping_id (counts_rows qs))" by (simp add: cs)
  ultimately have gn: "?g \<noteq> None" by metis
  have "b \<in> set (counts_query qs)" using cs counts_valid_rows[OF v] by simp
  then have "total b = length (filter (\<lambda>j. snd j = ?g) ?js)"
    using gn by (auto simp: counts_query_eq)
  with tb have "length (filter (\<lambda>j. snd j = ?g) ?js) = 2" by simp
  from two_elements[OF this] obtain j1 j2
    where grp: "filter (\<lambda>j. snd j = ?g) ?js = [j1, j2]" by blast
  have o: "spec_row_offset (counts_rows qs) 1 = 3"
    and c: "spec_row_count (counts_rows qs) 1 1 = 2"
    by (simp_all add: cs ta tb spec_row_offset_def spec_row_count_def)
  have "None \<notin> set (take (nat 1 + nat 1) (map counts_grouping_id (counts_rows qs)))"
    using nn by (meson in_set_takeD)
  from fetch_groups[OF v this, unfolded o c]
  have f: "fetch_rows qs 3 2 = Inr [fst j1, fst j2]"
    by (simp add: cs grp)
  have s: "fst (MappingQuerySet_grouped_slice objects qs 1 1) =
               (case grouped_slice_loop objects [fst j1, fst j2] ([], \<lambda>g. {}) of
                  Inl e \<Rightarrow> Inl e
                | Inr st \<Rightarrow> Inr (fst st))"
    using grouped_slice_nonneg[of 1 1 objects qs, unfolded o c] f
    by (simp add: fetch_rows_eq)
  have e: "fst (MappingQuerySet_grouped_slice objects qs 1 1) = Inr [(?g, [fst j1, fst j2])]"
    if "mapping_id (fst j1) \<noteq> mapping_id (fst j2) \<and>
      current objects (fst j1) ?g \<and> current objects (fst j2) ?g"
    unfolding s using two_current_rows[of objects "fst j1" ?g "fst j2"] that by simp
  have k: "map counts_grouping_id (counts_rows qs) ! 1 = ?g" by (simp add: cs)
  show ?thesis
    by (rule exI[of _ ?g], rule exI[of _ j1], rule exI[of _ j2], intro conjI impI)
       (rule k, rule grp, rule f, rule s, erule e)
qed

text \<open>
  Claim C1, as amended. For non-negative group offset and limit, \<^verbatim>\<open>grouped_slice\<close> of
  either query set takes its row range from the counts of the query object: the row offset
  is 0 for offset 0 and otherwise the sum of the totals of the first \<open>offset\<close> entries,
  the row count is the sum of the totals at indices from \<open>offset\<close> up to
  \<open>offset + limit\<close>, and the rows at positions from the row offset on, as many as the row
  count, of the ordered rowset are fetched and grouped. The group keys of the counts are in
  descending order for the denormalised form and in ascending order for the normalised
  form, and the denormalised form returns the groups at the indices from \<open>offset\<close> up to
  \<open>offset + limit\<close>, each with all its rows. For a rowset whose groups in order have the
  totals 3, 2, 5, \<^verbatim>\<open>grouped_slice(1, 1)\<close> has the row range (3, 2) and fetches the two rows
  of the second group; the denormalised form returns exactly the second group with its two
  rows; the normalised form returns what its loop makes of the two rows, which is exactly
  the second group with its two rows when they are different Mappings, both current under
  the key of the second group.
\<close>

theorem grouped_slice_row_range:
  assumes "0 \<le> offset" and "0 \<le> limit"
  shows "row_range counts offset limit =
           Inr (spec_row_offset counts offset, spec_row_count counts offset limit)
     \<and> fst (MappingViewQuerySet_grouped_slice vqs offset limit) =
         Inr (view_group_rows
                (take (spec_row_count (view_counts_rows vqs) offset limit)
                   (drop (spec_row_offset (view_counts_rows vqs) offset)
                      (order_by_desc (view_nulls_largest vqs) view_grouping_id (view_rows vqs)))))
     \<and> fst (MappingQuerySet_grouped_slice objs nqs offset limit) =
         (case grouped_slice_loop objs
                 (map fst
                    (take (spec_row_count (counts_rows nqs) offset limit)
                       (drop (spec_row_offset (counts_rows nqs) offset)
                          (order_by_asc (nulls_largest nqs) snd
                             (join_mapping_history (rows nqs))))))
                 ([], \<lambda>g. {}) of
            Inl e \<Rightarrow> Inl e
          | Inr st \<Rightarrow> Inr (fst st))
     \<and> (view_counts_valid vqs \<longrightarrow>
          sorted_wrt (key_before_desc (view_nulls_largest vqs))
            (map counts_grouping_id (view_counts_rows vqs))
          \<and> fst (MappingViewQuerySet_grouped_slice vqs offset limit) =
              Inr (map (\<lambda>g. (g, filter (\<lambda>r. view_grouping_id r = g) (view_rows vqs)))
                     (take (nat limit) (drop (nat offset)
                        (map counts_grouping_id (view_counts_rows vqs))))))
     \<and> (counts_valid nqs \<longrightarrow>
          sorted_wrt (key_before_asc (nulls_largest nqs))
            (map counts_grouping_id (counts_rows nqs)))
     \<and> (map total counts = [3, 2, 5] \<longrightarrow> row_range counts 1 1 = Inr (3, 2))
     \<and> (view_counts_valid vqs \<and> map total (view_counts_rows vqs) = [3, 2, 5] \<longrightarrow>
          (\<exists>g r1 r2.
             map counts_grouping_id (view_counts_rows vqs) ! 1 = g
             \<and> filter (\<lambda>r. view_grouping_id r = g) (view_rows vqs) = [r1, r2]
             \<and> take 2 (drop 3 (order_by_desc (view_nulls_largest vqs) view_grouping_id
                                 (view_rows vqs))) = [r1, r2]
             \<and> fst (MappingViewQuerySet_grouped_slice vqs 1 1) = Inr [(g, [r1, r2])]))
     \<and> (counts_valid nqs \<and> map total (counts_rows nqs) = [3, 2, 5] \<longrightarrow>
          (\<exists>g j1 j2.
             map counts_grouping_id (counts_rows nqs) ! 1 = g
             \<and> filter (\<lambda>j. snd j = g) (join_mapping_history (rows nqs)) = [j1, j2]
             \<and> fetch_rows nqs 3 2 = Inr [fst j1, fst j2]
             \<and> fst (MappingQuerySet_grouped_slice objs nqs 1 1) =
                 (case grouped_slice_loop objs [fst j1, fst j2] ([], \<lambda>g. {}) of
                    Inl e \<Rightarrow> Inl e
                  | Inr st \<Rightarrow> Inr (fst st))
             \<and> (mapping_id (fst j1) \<noteq> mapping_id (fst j2) \<and>
                  current objs (fst j1) g \<and> current objs (fst j2) g \<longrightarrow>
                  fst (MappingQuerySet_grouped_slice objs nqs 1 1) =
                    Inr [(g, [fst j1, fst j2])])))"
proof -
  have v: "sorted_wrt (key_before_desc (view_nulls_largest vqs))
            (map counts_grouping_id (view_counts_rows vqs))
          \<and> fst (MappingViewQuerySet_grouped_slice vqs offset limit) =
              Inr (map (\<lambda>g. (g, filter (\<lambda>r. view_grouping_id r = g) (view_rows vqs)))
                     (take (nat limit) (drop (nat offset)
                        (map counts_grouping_id (view_counts_rows vqs)))))"
    if "view_counts_valid vqs"
    using view_group_keys_ordered[of vqs] view_grouped_slice_groups[OF that assms]
    by (simp add: view_counts_valid_rows[OF that])
  have n: "sorted_wrt (key_before_asc (nulls_largest nqs))
            (map counts_grouping_id (counts_rows nqs))" if "counts_valid nqs"
    using group_keys_ordered[of nqs] by (simp add: counts_valid_rows[OF that])
  show ?thesis
    apply (intro conjI impI)
           apply (rule row_range_nonneg[OF assms])
          apply (rule view_grouped_slice_nonneg[OF assms])
         apply (rule grouped_slice_nonneg[OF assms])
        apply (erule v[THEN conjunct1])
       apply (erule v[THEN conjunct2])
      apply (erule n)
     apply (erule row_range_example)
    apply (erule conjE, erule (1) view_example)
    apply (erule conjE, erule (1) normalised_example)
    done
qed

theorem grouped_slice_row_range_witness:
  "(0::int) \<le> 1
   \<and> view_counts_valid example_view_queryset
   \<and> map total (view_counts_rows example_view_queryset) = [3, 2, 5]
   \<and> fst (MappingViewQuerySet_grouped_slice example_view_queryset 1 1) =
       Inr [(Some 2, [view_row 4 (Some 4) (Some 2), view_row 5 (Some 5) (Some 2)])]
   \<and> counts_valid example_queryset
   \<and> map total (counts_rows example_queryset) = [3, 2, 5]
   \<and> fst (MappingQuerySet_grouped_slice [release_old, release_new] example_queryset 1 1) =
       Inr [(Some 2, [mapping_row 4 [history_entry 4 release_new (Some 2)],
                      mapping_row 5 [history_entry 5 release_new (Some 2)]])]"
proof -
  have h: "(0::int) \<le> 1" by simp
  have vv: "view_counts_valid example_view_queryset" by code_simp
  have vt: "map total (view_counts_rows example_view_queryset) = [3, 2, 5]" by code_simp
  have vk: "map counts_grouping_id (view_counts_rows example_view_queryset) ! 1 = Some 2"
    by code_simp
  have vg: "filter (\<lambda>r. view_grouping_id r = Some 2) (view_rows example_view_queryset) =
      [view_row 4 (Some 4) (Some 2), view_row 5 (Some 5) (Some 2)]"
    by code_simp
  have nv: "counts_valid example_queryset" by code_simp
  have nt: "map total (counts_rows example_queryset) = [3, 2, 5]" by code_simp
  have nk: "map counts_grouping_id (counts_rows example_queryset) ! 1 = Some 2"
    by code_simp
  have ng: "filter (\<lambda>j. snd j = Some 2) (join_mapping_history (rows example_queryset)) =
      [(mapping_row 4 [history_entry 4 release_new (Some 2)], Some 2),
       (mapping_row 5 [history_entry 5 release_new (Some 2)], Some 2)]"
    by code_simp
  have c4: "current [release_old, release_new]
      (mapping_row 4 [history_entry 4 release_new (Some 2)]) (Some 2)" by code_simp
  have c5: "current [release_old, release_new]
      (mapping_row 5 [history_entry 5 release_new (Some 2)]) (Some 2)" by code_simp
  have ids: "mapping_id (mapping_row 4 [history_entry 4 release_new (Some 2)]) \<noteq>
      mapping_id (mapping_row 5 [history_entry 5 release_new (Some 2)])" by code_simp
  note t = grouped_slice_row_range[OF h h, of _ example_view_queryset
      "[release_old, release_new]" example_queryset]
  note t7 = t[THEN conjunct2, THEN conjunct2, THEN conjunct2, THEN conjunct2, THEN conjunct2,
      THEN conjunct2, THEN conjunct1, rule_format, OF conjI, OF vv vt]
  note t8 = t[THEN conjunct2, THEN conjunct2, THEN conjunct2, THEN conjunct2, THEN conjunct2,
      THEN conjunct2, THEN conjunct2, rule_format, OF conjI, OF nv nt]
  from t7 obtain g r1 r2
    where "map counts_grouping_id (view_counts_rows example_view_queryset) ! 1 = g"
      and "filter (\<lambda>r. view_grouping_id r = g) (view_rows example_view_queryset) = [r1, r2]"
      and "fst (MappingViewQuerySet_grouped_slice example_view_queryset 1 1) =
          Inr [(g, [r1, r2])]"
    by blast
  with vk vg
  have rv: "fst (MappingViewQuerySet_grouped_slice example_view_queryset 1 1) =
       Inr [(Some 2, [view_row 4 (Some 4) (Some 2), view_row 5 (Some 5) (Some 2)])]"
    by simp
  from t8 obtain g' j1 j2
    where k': "map counts_grouping_id (counts_rows example_queryset) ! 1 = g'"
      and g': "filter (\<lambda>j. snd j = g') (join_mapping_history (rows example_queryset)) = [j1, j2]"
      and r': "mapping_id (fst j1) \<noteq> mapping_id (fst j2) \<and>
            current [release_old, release_new] (fst j1) g' \<and>
            current [release_old, release_new] (fst j2) g' \<longrightarrow>
            fst (MappingQuerySet_grouped_slice [release_old, release_new] example_queryset 1 1) =
              Inr [(g', [fst j1, fst j2])]"
    by blast
  from k' nk have e1: "g' = Some 2" by simp
  from g' ng e1
  have e2: "j1 = (mapping_row 4 [history_entry 4 release_new (Some 2)], Some 2)"
    and e3: "j2 = (mapping_row 5 [history_entry 5 release_new (Some 2)], Some 2)"
    by simp_all
  from r' c4 c5 ids
  have rn: "fst (MappingQuerySet_grouped_slice [release_old, release_new] example_queryset 1 1) =
       Inr [(Some 2, [mapping_row 4 [history_entry 4 release_new (Some 2)],
                      mapping_row 5 [history_entry 5 release_new (Some 2)]])]"
    unfolding e1 e2 e3 fst_conv by blast
  show ?thesis by (intro conjI) (rule h vv vt rv nv nt rn)+
qed

theorem repeated_row_counterexample:
  "map total (counts_rows repeated_queryset) = [3, 2, 5]
   \<and> fst (MappingQuerySet_grouped_slice [release_old, release_new] repeated_queryset 1 1) =
       Inr [(Some 2, [mapping_row 4 [history_entry 4 release_new (Some 2),
                                    history_entry 5 release_new (Some 2)]])]"
  by code_simp

section \<open>Stale rows\<close>

text \<open>
  Claim C5. In the normalised form, a fetched row that is stale (it has history, and each
  of its most recently mapped history entries refers to a release snapshot that is none of
  the latest snapshots of its species, of which there are some) is passed over: the loop
  body leaves the results as they are and raises nothing. Every row in the mapping
  \<^verbatim>\<open>grouped_slice\<close> returns is eligible under the key of its list: one of its most
  recently mapped entries carries that key and refers to a latest snapshot of its species;
  so no stale row is in any group's list.
\<close>

theorem stale_rows_excluded:
  "(stale objects result \<longrightarrow> grouped_slice_step objects result st = Inr st)
   \<and> (fst (MappingQuerySet_grouped_slice objects qs offset limit) = Inr res \<longrightarrow>
        (\<forall>(g, rs) \<in> set res. \<forall>r \<in> set rs. is_eligible objects r g \<and> \<not> stale objects r))"
proof (intro conjI impI)
  assume "stale objects result"
  then show "grouped_slice_step objects result st = Inr st" by (rule stale_step)
next
  assume "fst (MappingQuerySet_grouped_slice objects qs offset limit) = Inr res"
  from grouped_slice_Inr[OF this] obtain sub_qs st'
    where l: "grouped_slice_loop objects sub_qs ([], \<lambda>g. {}) = Inr st'" and r: "res = fst st'"
    by blast
  show "\<forall>(g, rs) \<in> set res. \<forall>r \<in> set rs. is_eligible objects r g \<and> \<not> stale objects r"
  proof (clarify)
    fix g rs x
    assume "(g, rs) \<in> set res" and x: "x \<in> set rs"
    with loop_invariant_entries[OF loop_invariant_result[OF l], of g rs] r
    have "is_eligible objects x g" by simp
    then show "is_eligible objects x g \<and> \<not> stale objects x"
      using eligible_not_stale by blast
  qed
qed

theorem stale_rows_excluded_witness:
  "stale [release_new, release_old] (mapping_row 1 [history_entry 1 release_old (Some 1)])
   \<and> grouped_slice_step [release_new, release_old]
        (mapping_row 1 [history_entry 1 release_old (Some 1)]) ([], \<lambda>g. {}) = Inr ([], \<lambda>g. {})
   \<and> fst (MappingQuerySet_grouped_slice [release_new, release_old] stale_queryset 0 1) =
        Inr [(Some 1, [mapping_row 2 [history_entry 2 release_new (Some 1)]])]
   \<and> is_eligible [release_new, release_old]
        (mapping_row 2 [history_entry 2 release_new (Some 1)]) (Some 1)
   \<and> \<not> stale [release_new, release_old] (mapping_row 2 [history_entry 2 release_new (Some 1)])"
proof -
  have a: "stale [release_new, release_old]
      (mapping_row 1 [history_entry 1 release_old (Some 1)])"
    by code_simp
  have b: "fst (MappingQuerySet_grouped_slice [release_new, release_old] stale_queryset 0 1) =
        Inr [(Some 1, [mapping_row 2 [history_entry 2 release_new (Some 1)]])]"
    by code_simp
  note t = stale_rows_excluded[of "[release_new, release_old]"
      "mapping_row 1 [history_entry 1 release_old (Some 1)]" "([], \<lambda>g. {})" stale_queryset 0 1
      "[(Some 1, [mapping_row 2 [history_entry 2 release_new (Some 1)]])]"]
  note t1 = t[THEN conjunct1, rule_format, OF a]
  from t[THEN conjunct2, rule_format, OF b]
  have t2: "is_eligible [release_new, release_old]
      (mapping_row 2 [history_entry 2 release_new (Some 1)]) (Some 1)
      \<and> \<not> stale [release_new, release_old]
          (mapping_row 2 [history_entry 2 release_new (Some 1)])" by simp
  show ?thesis by (intro conjI) (rule a b t1 t2[THEN conjunct1] t2[THEN conjunct2])+
qed

section \<open>Deduplication\<close>

lemma one_row_of_identifier:
  assumes "distinct (map f xs)" and "a \<in> f ` set xs"
  shows "length (filter (\<lambda>x. f x = a) xs) = 1"
  using assms
proof (induction xs)
  case Nil
  then show ?case by simp
next
  case (Cons x xs)
  show ?case
  proof (cases "f x = a")
    case True
    with Cons.prems(1) have "\<forall>y \<in> set xs. f y \<noteq> a" by (auto simp: image_iff)
    then have "filter (\<lambda>x. f x = a) xs = []" by (simp add: filter_empty_conv)
    with True show ?thesis by simp
  next
    case False
    with Cons show ?thesis by auto
  qed
qed

text \<open>The rows in the lists are rows the loop was given.\<close>

lemma grouped_slice_loop_fetched:
  assumes "grouped_slice_loop objects sub_qs st = Inr st'"
    and "(g, rs) \<in> set (fst st')" and "r \<in> set rs"
  shows "r \<in> set sub_qs \<or> (\<exists>g0 rs0. (g0, rs0) \<in> set (fst st) \<and> r \<in> set rs0)"
  using assms(1)
proof (induction sub_qs arbitrary: st)
  case Nil
  with assms(2,3) show ?case by auto
next
  case (Cons result sub_qs)
  from Cons.prems obtain st1 where s1: "grouped_slice_step objects result st = Inr st1"
    and l: "grouped_slice_loop objects sub_qs st1 = Inr st'"
    by (auto split: sum.splits)
  obtain d added where st: "st = (d, added)" by (cases st)
  from Cons.IH[OF l] consider "r \<in> set sub_qs"
    | g0 rs0 where "(g0, rs0) \<in> set (fst st1)" "r \<in> set rs0" by blast
  then show ?case
  proof cases
    case 1
    then show ?thesis by simp
  next
    case 2
    from s1[unfolded st] show ?thesis
    proof (cases rule: grouped_slice_step_cases)
      case skip
      with 2 st show ?thesis by auto
    next
      case (add k)
      with 2 have "(g0, rs0) \<in> set (dict_append k result d)" by simp
      from dict_append_entries[OF this] 2(2) st show ?thesis by auto
    qed
  qed
qed

text \<open>
  Claim C3, as amended. In the normalised form, the mapping \<^verbatim>\<open>grouped_slice\<close> returns has
  one list per group key; the rows of a list are fetched rows that are eligible under the
  key of the list, and no list holds two rows with the same \<^verbatim>\<open>mapping_id\<close>; and for
  every fetched row that is current under a group key, however often it was fetched, the
  list of that key holds exactly one row with its \<^verbatim>\<open>mapping_id\<close>. The denormalised form
  does not deduplicate: the mapping it returns has the group keys of the fetched rows in the
  order they are first met, each with all the fetched rows of that key, in the order and as
  often as they were fetched.
\<close>

theorem grouped_slice_deduplicates:
  "(fst (MappingQuerySet_grouped_slice objects qs offset limit) = Inr res \<longrightarrow>
      (\<exists>sub_qs.
         fetch_rows qs (spec_row_offset (counts_rows qs) offset)
           (spec_row_count (counts_rows qs) offset limit) = Inr sub_qs
         \<and> distinct (map fst res)
         \<and> (\<forall>(g, rs) \<in> set res.
              distinct (map mapping_id rs) \<and> set rs \<subseteq> set sub_qs
              \<and> (\<forall>r \<in> set rs. is_eligible objects r g))
         \<and> (\<forall>r \<in> set sub_qs. \<forall>g. current objects r g \<longrightarrow>
              (\<exists>rs. (g, rs) \<in> set res
                 \<and> length (filter (\<lambda>x. mapping_id x = mapping_id r) rs) = 1))))
   \<and> (fst (MappingViewQuerySet_grouped_slice vqs offset limit) = Inr vres \<longrightarrow>
      (let sub_qs = take (spec_row_count (view_counts_rows vqs) offset limit)
                      (drop (spec_row_offset (view_counts_rows vqs) offset)
                         (order_by_desc (view_nulls_largest vqs) view_grouping_id
                            (view_rows vqs)))
       in vres = map (\<lambda>g. (g, filter (\<lambda>r. view_grouping_id r = g) sub_qs))
                   (rev (remdups (rev (map view_grouping_id sub_qs))))))"
proof (intro conjI impI)
  assume "fst (MappingQuerySet_grouped_slice objects qs offset limit) = Inr res"
  from grouped_slice_Inr[OF this] obtain sub_qs st'
    where f: "fetch_rows qs (spec_row_offset (counts_rows qs) offset)
           (spec_row_count (counts_rows qs) offset limit) = Inr sub_qs"
      and l: "grouped_slice_loop objects sub_qs ([], \<lambda>g. {}) = Inr st'" and r: "res = fst st'"
    by blast
  note inv = loop_invariant_result[OF l]
  have d: "distinct (map fst res)" using inv r by (simp add: loop_invariant_def)
  have e: "\<forall>(g, rs) \<in> set res.
              distinct (map mapping_id rs) \<and> set rs \<subseteq> set sub_qs
              \<and> (\<forall>r \<in> set rs. is_eligible objects r g)"
  proof (clarify, intro conjI)
    fix g rs
    assume m: "(g, rs) \<in> set res"
    with r have m': "(g, rs) \<in> set (fst st')" by simp
    from loop_invariant_entries[OF inv m']
    show "distinct (map mapping_id rs)" and "\<forall>r \<in> set rs. is_eligible objects r g" by simp_all
    show "set rs \<subseteq> set sub_qs"
    proof
      fix x assume "x \<in> set rs"
      from grouped_slice_loop_fetched[OF l m' this] show "x \<in> set sub_qs" by simp
    qed
  qed
  have c: "\<forall>r \<in> set sub_qs. \<forall>g. current objects r g \<longrightarrow>
              (\<exists>rs. (g, rs) \<in> set res
                 \<and> length (filter (\<lambda>x. mapping_id x = mapping_id r) rs) = 1)"
  proof (intro ballI allI impI)
    fix x g
    assume x: "x \<in> set sub_qs" and cur: "current objects x g"
    from grouped_slice_loop_current[OF l x cur] have "mapping_id x \<in> snd st' g" .
    from loop_invariant_recorded[OF inv this] obtain rs
      where m: "(g, rs) \<in> set (fst st')" and i: "mapping_id x \<in> mapping_id ` set rs" by blast
    from loop_invariant_entries[OF inv m] have "distinct (map mapping_id rs)" by simp
    from one_row_of_identifier[OF this i] m r
    show "\<exists>rs. (g, rs) \<in> set res
                 \<and> length (filter (\<lambda>y. mapping_id y = mapping_id x) rs) = 1" by auto
  qed
  from f d e c
  show "\<exists>sub_qs.
         fetch_rows qs (spec_row_offset (counts_rows qs) offset)
           (spec_row_count (counts_rows qs) offset limit) = Inr sub_qs
         \<and> distinct (map fst res)
         \<and> (\<forall>(g, rs) \<in> set res.
              distinct (map mapping_id rs) \<and> set rs \<subseteq> set sub_qs
              \<and> (\<forall>r \<in> set rs. is_eligible objects r g))
         \<and> (\<forall>r \<in> set sub_qs. \<forall>g. current objects r g \<longrightarrow>
              (\<exists>rs. (g, rs) \<in> set res
                 \<and> length (filter (\<lambda>x. mapping_id x = mapping_id r) rs) = 1))"
    by (intro exI[of _ sub_qs] conjI)
next
  assume "fst (MappingViewQuerySet_grouped_slice vqs offset limit) = Inr vres"
  from view_grouped_slice_Inr[OF this]
  show "let sub_qs = take (spec_row_count (view_counts_rows vqs) offset limit)
                      (drop (spec_row_offset (view_counts_rows vqs) offset)
                         (order_by_desc (view_nulls_largest vqs) view_grouping_id
                            (view_rows vqs)))
       in vres = map (\<lambda>g. (g, filter (\<lambda>r. view_grouping_id r = g) sub_qs))
                   (rev (remdups (rev (map view_grouping_id sub_qs))))"
    by (simp add: view_group_rows_first_seen Let_def)
qed


theorem grouped_slice_deduplicates_witness:
  "fetch_rows duplicate_queryset (spec_row_offset (counts_rows duplicate_queryset) 0)
       (spec_row_count (counts_rows duplicate_queryset) 0 1) =
     Inr [mapping_row 7 [history_entry 1 release_new (Some 1), history_entry 2 release_new (Some 1)],
          mapping_row 7 [history_entry 1 release_new (Some 1), history_entry 2 release_new (Some 1)]]
   \<and> current [release_old, release_new]
       (mapping_row 7 [history_entry 1 release_new (Some 1), history_entry 2 release_new (Some 1)]) (Some 1)
   \<and> fst (MappingQuerySet_grouped_slice [release_old, release_new] duplicate_queryset 0 1) =
       Inr [(Some 1, [mapping_row 7 [history_entry 1 release_new (Some 1), history_entry 2 release_new (Some 1)]])]
   \<and> (\<exists>rs. (Some 1, rs) \<in> set [(Some (1::int), [mapping_row 7 [history_entry 1 release_new (Some 1), history_entry 2 release_new (Some 1)]])]
         \<and> length (filter (\<lambda>x. mapping_id x = mapping_id (mapping_row 7 [history_entry 1 release_new (Some 1), history_entry 2 release_new (Some 1)])) rs) = 1)
   \<and> fst (MappingViewQuerySet_grouped_slice example_view_queryset 0 1) =
       Inr [(Some 3, [view_row 1 (Some 1) (Some 3), view_row 2 (Some 2) (Some 3),
                  view_row 3 (Some 3) (Some 3)])]
   \<and> [(Some 3, [view_row 1 (Some 1) (Some 3), view_row 2 (Some 2) (Some 3),
                  view_row 3 (Some 3) (Some 3)])] =
       map (\<lambda>g. (g, filter (\<lambda>r. view_grouping_id r = g)
                      (take (spec_row_count (view_counts_rows example_view_queryset) 0 1)
                         (drop (spec_row_offset (view_counts_rows example_view_queryset) 0)
                            (order_by_desc (view_nulls_largest example_view_queryset)
                               view_grouping_id (view_rows example_view_queryset))))))
         (rev (remdups (rev (map view_grouping_id
                      (take (spec_row_count (view_counts_rows example_view_queryset) 0 1)
                         (drop (spec_row_offset (view_counts_rows example_view_queryset) 0)
                            (order_by_desc (view_nulls_largest example_view_queryset)
                               view_grouping_id (view_rows example_view_queryset))))))))"
proof -
  have a: "fetch_rows duplicate_queryset (spec_row_offset (counts_rows duplicate_queryset) 0)
       (spec_row_count (counts_rows duplicate_queryset) 0 1) =
     Inr [mapping_row 7 [history_entry 1 release_new (Some 1), history_entry 2 release_new (Some 1)],
          mapping_row 7 [history_entry 1 release_new (Some 1), history_entry 2 release_new (Some 1)]]"
    by code_simp
  have b: "fst (MappingQuerySet_grouped_slice [release_old, release_new] duplicate_queryset 0 1) =
       Inr [(Some 1, [mapping_row 7 [history_entry 1 release_new (Some 1), history_entry 2 release_new (Some 1)]])]"
    by code_simp
  have c: "current [release_old, release_new]
       (mapping_row 7 [history_entry 1 release_new (Some 1), history_entry 2 release_new (Some 1)]) (Some 1)"
    by code_simp
  have v: "fst (MappingViewQuerySet_grouped_slice example_view_queryset 0 1) =
       Inr [(Some 3, [view_row 1 (Some 1) (Some 3), view_row 2 (Some 2) (Some 3),
                  view_row 3 (Some 3) (Some 3)])]"
    by code_simp
  note t = grouped_slice_deduplicates[of "[release_old, release_new]" duplicate_queryset 0 1
      "[(Some 1, [mapping_row 7 [history_entry 1 release_new (Some 1), history_entry 2 release_new (Some 1)]])]" example_view_queryset
      "[(Some 3, [view_row 1 (Some 1) (Some 3), view_row 2 (Some 2) (Some 3),
                  view_row 3 (Some 3) (Some 3)])]"]
  from t[THEN conjunct1, rule_format, OF b] obtain sub_qs
    where f: "fetch_rows duplicate_queryset (spec_row_offset (counts_rows duplicate_queryset) 0)
           (spec_row_count (counts_rows duplicate_queryset) 0 1) = Inr sub_qs"
      and k: "\<forall>r \<in> set sub_qs. \<forall>g. current [release_old, release_new] r g \<longrightarrow>
              (\<exists>rs. (g, rs) \<in> set [(Some (1::int), [mapping_row 7 [history_entry 1 release_new (Some 1), history_entry 2 release_new (Some 1)]])]
                 \<and> length (filter (\<lambda>x. mapping_id x = mapping_id r) rs) = 1)"
    by blast
  from f[unfolded a] have "sub_qs = [mapping_row 7 [history_entry 1 release_new (Some 1), history_entry 2 release_new (Some 1)],
      mapping_row 7 [history_entry 1 release_new (Some 1), history_entry 2 release_new (Some 1)]]" by simp
  then have "mapping_row 7 [history_entry 1 release_new (Some 1), history_entry 2 release_new (Some 1)] \<in> set sub_qs" by simp
  from k[rule_format, OF this c]
  have d: "\<exists>rs. (Some 1, rs) \<in> set [(Some (1::int), [mapping_row 7 [history_entry 1 release_new (Some 1), history_entry 2 release_new (Some 1)]])]
         \<and> length (filter (\<lambda>x. mapping_id x = mapping_id (mapping_row 7 [history_entry 1 release_new (Some 1), history_entry 2 release_new (Some 1)])) rs) = 1" .
  from t[THEN conjunct2, rule_format, OF v, unfolded Let_def]
  have e: "[(Some 3, [view_row 1 (Some 1) (Some 3), view_row 2 (Some 2) (Some 3),
                  view_row 3 (Some 3) (Some 3)])] =
       map (\<lambda>g. (g, filter (\<lambda>r. view_grouping_id r = g)
                      (take (spec_row_count (view_counts_rows example_view_queryset) 0 1)
                         (drop (spec_row_offset (view_counts_rows example_view_queryset) 0)
                            (order_by_desc (view_nulls_largest example_view_queryset)
                               view_grouping_id (view_rows example_view_queryset))))))
         (rev (remdups (rev (map view_grouping_id
                      (take (spec_row_count (view_counts_rows example_view_queryset) 0 1)
                         (drop (spec_row_offset (view_counts_rows example_view_queryset) 0)
                            (order_by_desc (view_nulls_largest example_view_queryset)
                               view_grouping_id (view_rows example_view_queryset))))))))"
    .
  show ?thesis by (intro conjI) (rule a c b d v e)+
qed

theorem view_grouped_slice_keeps_duplicates_counterexample:
  "fst (MappingViewQuerySet_grouped_slice duplicate_view_queryset 0 1) =
     Inr [(Some 1, [view_row 1 (Some 7) (Some 1), view_row 2 (Some 7) (Some 1)])]
   \<and> view_grouping_id (view_row 1 (Some 7) (Some 1)) = view_grouping_id (view_row 2 (Some 7) (Some 1))
   \<and> view_mapping_id (view_row 1 (Some 7) (Some 1)) = view_mapping_id (view_row 2 (Some 7) (Some 1))
   \<and> view_row 1 (Some 7) (Some 1) \<noteq> view_row 2 (Some 7) (Some 1)"
  by code_simp

section \<open>Rows returned against the counted totals\<close>

lemma sum_length_filter_remdups:
  "sum_list (map (\<lambda>g. length (filter (\<lambda>r. f r = g) xs)) (remdups (map f xs))) = length xs"
proof -
  have "sum_list (map (\<lambda>g. length (filter (\<lambda>r. f r = g) xs)) (remdups (map f xs)))
      = (\<Sum>g\<in>set (map f xs). length (filter (\<lambda>r. f r = g) xs))"
    by (simp add: sum_list_distinct_conv_sum_set)
  also have "\<dots> = (\<Sum>g\<in>set (map f xs). count_list (map f xs) g)"
    by (rule sum.cong) (auto simp: count_list_eq_length_filter filter_map comp_def eq_commute)
  also have "\<dots> = length (map f xs)"
    by (rule sum_count_set) auto
  finally show ?thesis by simp
qed

lemma sum_list_sort_key:
  "sum_list (map h (sort_key k xs)) = sum_list (map (h :: 'a \<Rightarrow> nat) xs)"
proof -
  have "mset (map h (sort_key k xs)) = mset (map h xs)" by simp
  then show ?thesis by (metis sum_mset_sum_list)
qed

lemma sum_view_counts_query: "sum_list (map total (view_counts_query qs)) = length (view_rows qs)"
  by (simp add: view_counts_query_eq order_by_desc_def comp_def sum_list_sort_key
      sum_length_filter_remdups)

lemma sum_list_total_le:
  assumes "\<And>g. t g \<le> (u g :: nat)"
  shows "sum_list (map t gs) \<le> sum_list (map u gs)"
  using assms by (induction gs) (auto intro: add_mono)

lemma sum_counts_query: "sum_list (map total (counts_query qs)) \<le> length (join_mapping_history (rows qs))"
proof -
  let ?js = "join_mapping_history (rows qs)"
  have "sum_list (map total (counts_query qs)) \<le>
      sum_list (map (\<lambda>g. length (filter (\<lambda>j. snd j = g) ?js))
        (order_by_asc (nulls_largest qs) (\<lambda>g. g) (remdups (map snd ?js))))"
    unfolding counts_query_eq by (simp add: comp_def) (rule sum_list_total_le, simp)
  also have "\<dots> = length ?js"
    by (simp add: order_by_asc_def sum_list_sort_key sum_length_filter_remdups)
  finally show ?thesis .
qed

lemma sum_take_drop_le:
  "sum_list (map total (take a cs)) + sum_list (map total (take b (drop a cs)))
     \<le> sum_list (map total cs)"
proof -
  have "sum_list (map total (take b (drop a cs))) \<le> sum_list (map total (drop a cs))"
    by (metis append_take_drop_id le_add1 map_append sum_list.append)
  moreover have "sum_list (map total (take a cs)) + sum_list (map total (drop a cs))
      = sum_list (map total cs)"
    by (metis append_take_drop_id map_append sum_list.append)
  ultimately show ?thesis by linarith
qed

lemma rows_returned_view_group_rows: "rows_returned (view_group_rows sub_qs) = length sub_qs"
proof -
  have "rows_returned (fold (\<lambda>r d. dict_append (view_grouping_id r) r d) sub_qs d0)
      = length sub_qs + rows_returned d0" for d0
    by (induction sub_qs arbitrary: d0) (simp_all add: rows_returned_dict_append)
  then show ?thesis by (simp add: view_group_rows_def rows_returned_def)
qed

lemma view_rows_returned:
  assumes "view_counts_valid vqs"
    and "fst (MappingViewQuerySet_grouped_slice vqs offset limit) = Inr vres"
  shows "rows_returned vres = spec_row_count (view_counts_rows vqs) offset limit"
proof -
  let ?cs = "view_counts_rows vqs"
  let ?sorted = "order_by_desc (view_nulls_largest vqs) view_grouping_id (view_rows vqs)"
  have "spec_row_offset ?cs offset + spec_row_count ?cs offset limit \<le> sum_list (map total ?cs)"
    unfolding spec_row_offset_eq spec_row_count_def by (rule sum_take_drop_le)
  also have "\<dots> = length ?sorted"
    by (simp add: view_counts_valid_rows[OF assms(1)] sum_view_counts_query order_by_desc_def)
  finally have "length (take (spec_row_count ?cs offset limit)
      (drop (spec_row_offset ?cs offset) ?sorted)) = spec_row_count ?cs offset limit"
    by simp
  then show ?thesis
    by (simp only: view_grouped_slice_Inr[OF assms(2)] rows_returned_view_group_rows)
qed

lemma fetch_rows_length:
  assumes "fetch_rows qs qs_offset qs_limit = Inr sub_qs"
  shows "length sub_qs \<le> qs_limit"
  using assms by (auto simp: fetch_rows_def qs_getitem_rows)

lemma fetch_rows_length_counted:
  assumes "counts_valid qs"
    and "fetch_rows qs (spec_row_offset (counts_rows qs) offset)
           (spec_row_count (counts_rows qs) offset limit) = Inr sub_qs"
  shows "length sub_qs = spec_row_count (counts_rows qs) offset limit"
proof -
  let ?cs = "counts_rows qs"
  let ?sorted = "order_by_asc (nulls_largest qs) snd (join_mapping_history (rows qs))"
  have "spec_row_offset ?cs offset + spec_row_count ?cs offset limit \<le> sum_list (map total ?cs)"
    unfolding spec_row_offset_eq spec_row_count_def by (rule sum_take_drop_le)
  also have "\<dots> \<le> length ?sorted"
    using sum_counts_query[of qs] by (simp add: counts_valid_rows[OF assms(1)] order_by_asc_def)
  finally have "length (take (spec_row_count ?cs offset limit)
      (drop (spec_row_offset ?cs offset) ?sorted)) = spec_row_count ?cs offset limit"
    by simp
  with assms(2) show ?thesis by (auto simp: fetch_rows_eq)
qed

lemma rows_returned_bound:
  assumes "fst (MappingQuerySet_grouped_slice objects qs offset limit) = Inr res"
  shows "rows_returned res \<le> spec_row_count (counts_rows qs) offset limit"
proof -
  from grouped_slice_Inr[OF assms] obtain sub_qs st
    where f: "fetch_rows qs (spec_row_offset (counts_rows qs) offset)
                 (spec_row_count (counts_rows qs) offset limit) = Inr sub_qs"
      and l: "grouped_slice_loop objects sub_qs ([], \<lambda>g. {}) = Inr st" and res: "res = fst st"
    by blast
  from grouped_slice_loop_rows[OF l] have "rows_returned res \<le> length sub_qs"
    by (simp add: res rows_returned_def)
  also have "\<dots> \<le> spec_row_count (counts_rows qs) offset limit" by (rule fetch_rows_length[OF f])
  finally show ?thesis .
qed

lemma rows_returned_all_current:
  assumes "counts_valid qs" and "0 \<le> offset" and "0 \<le> limit"
    and f: "fetch_rows qs (spec_row_offset (counts_rows qs) offset)
           (spec_row_count (counts_rows qs) offset limit) = Inr sub_qs"
    and d: "distinct (map mapping_id sub_qs)"
    and c: "\<forall>r \<in> set sub_qs. \<exists>g. current objects r g"
  shows "\<exists>res. fst (MappingQuerySet_grouped_slice objects qs offset limit) = Inr res
           \<and> rows_returned res = spec_row_count (counts_rows qs) offset limit"
proof -
  from grouped_slice_loop_all_kept[OF d c, of "([], \<lambda>g. {})"] obtain st'
    where l: "grouped_slice_loop objects sub_qs ([], \<lambda>g. {}) = Inr st'"
      and n: "rows_returned (fst st') = length sub_qs"
    by (auto simp: rows_returned_def)
  from f have "sub_qs = map fst (take (spec_row_count (counts_rows qs) offset limit)
      (drop (spec_row_offset (counts_rows qs) offset)
         (order_by_asc (nulls_largest qs) snd (join_mapping_history (rows qs)))))"
    by (simp add: fetch_rows_eq)
  with l have "fst (MappingQuerySet_grouped_slice objects qs offset limit) = Inr (fst st')"
    by (simp add: grouped_slice_nonneg[OF assms(2,3)])
  with n fetch_rows_length_counted[OF assms(1) f] show ?thesis by simp
qed


text \<open>Mappings with at most one history entry each are joined to one row each.\<close>

lemma join_single_entry:
  assumes "\<forall>m \<in> set ms. length (mapping_history m) \<le> 1"
  shows "map fst (join_mapping_history ms) = ms"
  using assms
proof (induction ms)
  case Nil
  then show ?case by (simp add: join_mapping_history_def)
next
  case (Cons m ms)
  then have "map fst (join_mapping_history ms) = ms" by simp
  moreover have "join_mapping_history (m # ms) =
      (case mapping_history m of [] \<Rightarrow> [(m, None)] | hs \<Rightarrow> map (\<lambda>h. (m, grouping_id h)) hs)
        @ join_mapping_history ms"
    by (simp add: join_mapping_history_def)
  moreover from Cons.prems have "length (mapping_history m) \<le> 1" by simp
  then have "map fst (case mapping_history m of [] \<Rightarrow> [(m, None)]
      | hs \<Rightarrow> map (\<lambda>h. (m, grouping_id h)) hs) = [m]"
    by (cases "mapping_history m") (auto simp: comp_def)
  ultimately show ?case by simp
qed

lemma fetched_single_entry:
  assumes "\<forall>m \<in> set (rows qs). length (mapping_history m) \<le> 1"
    and "distinct (map mapping_id (rows qs))"
    and "fetch_rows qs a b = Inr sub_qs"
  shows "distinct (map mapping_id sub_qs) \<and> set sub_qs \<subseteq> set (rows qs)"
proof -
  let ?js = "join_mapping_history (rows qs)"
  let ?sorted = "order_by_asc (nulls_largest qs) snd ?js"
  have m: "mset (map fst ?sorted) = mset (rows qs)"
    using join_single_entry[OF assms(1)]
    by (metis mset_map mset_sort order_by_asc_def)
  then have "mset (map mapping_id (map fst ?sorted)) = mset (map mapping_id (rows qs))"
    by (metis mset_map)
  with assms(2) have d: "distinct (map mapping_id (map fst ?sorted))"
    by (metis mset_eq_imp_distinct_iff)
  from assms(3) have s: "sub_qs = take b (drop a (map fst ?sorted))"
    by (simp add: fetch_rows_eq take_map drop_map)
  have "map mapping_id sub_qs = take b (drop a (map mapping_id (map fst ?sorted)))"
    by (simp only: s take_map drop_map)
  with d have "distinct (map mapping_id sub_qs)" by (simp add: distinct_drop)
  moreover have "set sub_qs \<subseteq> set (map fst ?sorted)"
    unfolding s by (meson in_set_dropD in_set_takeD subsetI)
  with m have "set sub_qs \<subseteq> set (rows qs)" by (metis mset_eq_setD)
  ultimately show ?thesis by simp
qed

lemma rows_returned_single_current:
  assumes "counts_valid qs" and "0 \<le> offset" and "0 \<le> limit"
    and d: "distinct (map mapping_id (rows qs))"
    and c: "\<forall>m \<in> set (rows qs). length (mapping_history m) = 1 \<and> (\<exists>g. current objects m g)"
  shows "\<exists>res. fst (MappingQuerySet_grouped_slice objects qs offset limit) = Inr res
           \<and> rows_returned res = spec_row_count (counts_rows qs) offset limit"
proof -
  obtain sub_qs where f: "fetch_rows qs (spec_row_offset (counts_rows qs) offset)
           (spec_row_count (counts_rows qs) offset limit) = Inr sub_qs"
    by (simp add: fetch_rows_eq)
  from c have "\<forall>m \<in> set (rows qs). length (mapping_history m) \<le> 1" by simp
  from fetched_single_entry[OF this d f]
  have d': "distinct (map mapping_id sub_qs)" and s: "set sub_qs \<subseteq> set (rows qs)" by simp_all
  from s c have "\<forall>r \<in> set sub_qs. \<exists>g. current objects r g" by blast
  from rows_returned_all_current[OF assms(1-3) f d' this] show ?thesis .
qed

text \<open>
  Claim C2, as amended. For the denormalised form, on a query object whose counts are those
  of its rowset, whenever \<^verbatim>\<open>grouped_slice\<close> returns a mapping the number of rows in its
  lists equals the sum of the totals of the count entries at indices from the offset up to
  offset + limit, and for non-negative offset and limit it does return one. For the
  normalised form the number of rows returned is at most that sum: rows fetched twice and
  stale rows are counted in the totals and left out of the lists. It equals that sum, and
  the call returns, for non-negative offset and limit when the fetched rows are pairwise
  different Mappings that are all current; in particular when the Mappings of the rowset
  are pairwise different, have one history entry each and are all current.
\<close>

theorem grouped_slice_row_total:
  "(view_counts_valid vqs \<and>
      fst (MappingViewQuerySet_grouped_slice vqs offset limit) = Inr vres \<longrightarrow>
      rows_returned vres = spec_row_count (view_counts_rows vqs) offset limit)
   \<and> (0 \<le> offset \<and> 0 \<le> limit \<longrightarrow>
      (\<exists>r. fst (MappingViewQuerySet_grouped_slice vqs offset limit) = Inr r))
   \<and> (fst (MappingQuerySet_grouped_slice objects qs offset limit) = Inr res \<longrightarrow>
      rows_returned res \<le> spec_row_count (counts_rows qs) offset limit)
   \<and> (counts_valid qs \<and> 0 \<le> offset \<and> 0 \<le> limit
       \<and> fetch_rows qs (spec_row_offset (counts_rows qs) offset)
            (spec_row_count (counts_rows qs) offset limit) = Inr sub_qs
       \<and> distinct (map mapping_id sub_qs)
       \<and> (\<forall>r \<in> set sub_qs. \<exists>g. current objects r g) \<longrightarrow>
      (\<exists>r. fst (MappingQuerySet_grouped_slice objects qs offset limit) = Inr r
         \<and> rows_returned r = spec_row_count (counts_rows qs) offset limit))
   \<and> (counts_valid qs \<and> 0 \<le> offset \<and> 0 \<le> limit
       \<and> distinct (map mapping_id (rows qs))
       \<and> (\<forall>m \<in> set (rows qs). length (mapping_history m) = 1 \<and> (\<exists>g. current objects m g)) \<longrightarrow>
      (\<exists>r. fst (MappingQuerySet_grouped_slice objects qs offset limit) = Inr r
         \<and> rows_returned r = spec_row_count (counts_rows qs) offset limit))"
proof (intro conjI impI)
  assume "view_counts_valid vqs \<and>
      fst (MappingViewQuerySet_grouped_slice vqs offset limit) = Inr vres"
  then show "rows_returned vres = spec_row_count (view_counts_rows vqs) offset limit"
    using view_rows_returned by blast
next
  assume "0 \<le> offset \<and> 0 \<le> limit"
  then show "\<exists>r. fst (MappingViewQuerySet_grouped_slice vqs offset limit) = Inr r"
    using view_grouped_slice_nonneg by blast
next
  assume "fst (MappingQuerySet_grouped_slice objects qs offset limit) = Inr res"
  then show "rows_returned res \<le> spec_row_count (counts_rows qs) offset limit"
    by (rule rows_returned_bound)
next
  assume a: "counts_valid qs \<and> 0 \<le> offset \<and> 0 \<le> limit
       \<and> fetch_rows qs (spec_row_offset (counts_rows qs) offset)
            (spec_row_count (counts_rows qs) offset limit) = Inr sub_qs
       \<and> distinct (map mapping_id sub_qs)
       \<and> (\<forall>r \<in> set sub_qs. \<exists>g. current objects r g)"
  show "\<exists>r. fst (MappingQuerySet_grouped_slice objects qs offset limit) = Inr r
         \<and> rows_returned r = spec_row_count (counts_rows qs) offset limit"
    by (rule rows_returned_all_current[of qs offset limit sub_qs objects]) (simp_all add: a)
next
  assume a: "counts_valid qs \<and> 0 \<le> offset \<and> 0 \<le> limit
       \<and> distinct (map mapping_id (rows qs))
       \<and> (\<forall>m \<in> set (rows qs). length (mapping_history m) = 1 \<and> (\<exists>g. current objects m g))"
  show "\<exists>r. fst (MappingQuerySet_grouped_slice objects qs offset limit) = Inr r
         \<and> rows_returned r = spec_row_count (counts_rows qs) offset limit"
    by (rule rows_returned_single_current[of qs offset limit objects]) (simp_all add: a)
qed

theorem grouped_slice_row_total_witness:
  "view_counts_valid example_view_queryset
   \<and> fst (MappingViewQuerySet_grouped_slice example_view_queryset 1 1) =
       Inr [(Some 2, [view_row 4 (Some 4) (Some 2), view_row 5 (Some 5) (Some 2)])]
   \<and> rows_returned [(Some (2::int), [view_row 4 (Some 4) (Some 2), view_row 5 (Some 5) (Some 2)])] =
       spec_row_count (view_counts_rows example_view_queryset) 1 1
   \<and> fst (MappingQuerySet_grouped_slice [release_old, release_new] stale_queryset 0 1) =
        Inr [(Some 1, [mapping_row 2 [history_entry 2 release_new (Some 1)]])]
   \<and> rows_returned [(Some (1::int), [mapping_row 2 [history_entry 2 release_new (Some 1)]])] \<le>
       spec_row_count (counts_rows stale_queryset) 0 1
   \<and> counts_valid example_queryset
   \<and> distinct (map mapping_id (rows example_queryset))
   \<and> list_all (\<lambda>m. length (mapping_history m) = 1
        \<and> current [release_old, release_new] m (grouping_id (hd (mapping_history m))))
        (rows example_queryset)
   \<and> (\<exists>r. fst (MappingQuerySet_grouped_slice [release_old, release_new] example_queryset 1 1) =
            Inr r
         \<and> rows_returned r = spec_row_count (counts_rows example_queryset) 1 1)
   \<and> spec_row_count (counts_rows example_queryset) 1 1 = 2"
proof -
  have a: "view_counts_valid example_view_queryset" by code_simp
  have b: "fst (MappingViewQuerySet_grouped_slice example_view_queryset 1 1) =
       Inr [(Some 2, [view_row 4 (Some 4) (Some 2), view_row 5 (Some 5) (Some 2)])]"
    by code_simp
  have c: "fst (MappingQuerySet_grouped_slice [release_old, release_new] stale_queryset 0 1) =
        Inr [(Some 1, [mapping_row 2 [history_entry 2 release_new (Some 1)]])]"
    by code_simp
  have d: "counts_valid example_queryset" by code_simp
  have e: "distinct (map mapping_id (rows example_queryset))" by code_simp
  have f: "list_all (\<lambda>m. length (mapping_history m) = 1
        \<and> current [release_old, release_new] m (grouping_id (hd (mapping_history m))))
        (rows example_queryset)"
    by code_simp
  then have g: "\<forall>m \<in> set (rows example_queryset). length (mapping_history m) = 1
        \<and> (\<exists>g. current [release_old, release_new] m g)"
    unfolding list_all_iff by blast
  have h: "spec_row_count (counts_rows example_queryset) 1 1 = 2" by code_simp
  note t1 = grouped_slice_row_total[THEN conjunct1, rule_format, OF conjI, OF a b]
  note t2 = grouped_slice_row_total[THEN conjunct2, THEN conjunct2, THEN conjunct1,
      rule_format, OF c]
  have z: "(0::int) \<le> 1" by simp
  note t3 = grouped_slice_row_total[of _ 1 1 _ "[release_old, release_new]" example_queryset,
      THEN conjunct2, THEN conjunct2, THEN conjunct2, THEN conjunct2, rule_format,
      OF conjI, OF d conjI, OF z conjI, OF z conjI, OF e g]
  show ?thesis by (intro conjI) (rule a b c d e f h t1 t2 t3)+
qed

theorem grouped_slice_duplicates_counterexample:
  "fst (MappingQuerySet_grouped_slice [release_old, release_new] duplicate_queryset 0 1) =
       Inr [(Some 1, [mapping_row 7 [history_entry 1 release_new (Some 1),
                                    history_entry 2 release_new (Some 1)]])]
   \<and> rows_returned [(Some (1::int), [mapping_row 7 [history_entry 1 release_new (Some 1),
                                    history_entry 2 release_new (Some 1)]])] = 1
   \<and> spec_row_count (counts_rows duplicate_queryset) 0 1 = 2"
  by code_simp

section \<open>The stored counts query\<close>

text \<open>
  What the two methods leave in \<^verbatim>\<open>_counts\<close>: \<^verbatim>\<open>grouped_slice\<close> leaves a query set that
  was not evaluated unevaluated, so the next reader runs the query again;
  \<^verbatim>\<open>grouped_count\<close> leaves it evaluated, holding the entries it counted.
\<close>

lemma grouped_slice_memo:
  "counts_memo (snd (MappingQuerySet_grouped_slice objects qs offset limit)) =
     (case counts_memo qs of None \<Rightarrow> Some Unevaluated | Some c \<Rightarrow> Some c)"
  by (simp add: MappingQuerySet_grouped_slice_def MappingQuerySet_grouped_counts_def Let_def
      split: option.splits)

lemma grouped_count_memo:
  "counts_memo (snd (MappingQuerySet_grouped_count qs)) = Some (Evaluated (counts_rows qs))
   \<and> fst (MappingQuerySet_grouped_count qs) = length (counts_rows qs)"
  by (simp add: MappingQuerySet_grouped_count_def MappingQuerySet_grouped_counts_def Let_def
      counts_rows_def counts_query_def split: option.splits counts_queryset.splits)

lemma view_grouped_slice_memo:
  "view_counts (snd (MappingViewQuerySet_grouped_slice vqs offset limit)) =
     (case view_counts vqs of None \<Rightarrow> Some Unevaluated | Some c \<Rightarrow> Some c)"
  by (simp add: MappingViewQuerySet_grouped_slice_def MappingViewQuerySet_grouped_counts_def
      Let_def split: option.splits)

lemma view_grouped_count_memo:
  "view_counts (snd (MappingViewQuerySet_grouped_count vqs)) =
     Some (Evaluated (view_counts_rows vqs))
   \<and> fst (MappingViewQuerySet_grouped_count vqs) = length (view_counts_rows vqs)"
  by (simp add: MappingViewQuerySet_grouped_count_def MappingViewQuerySet_grouped_counts_def
      Let_def view_counts_rows_def view_counts_query_def
      split: option.splits counts_queryset.splits)

text \<open>
  Claim C6 on the code. \<^verbatim>\<open>grouped_counts\<close> stores the counts query, not its entries. On
  a new query object over the ten example rows, \<^verbatim>\<open>grouped_slice(1, 1)\<close> reads the counts
  by running the query and leaves \<^verbatim>\<open>_counts\<close> unevaluated: when the three rows of one
  group have left the table, \<^verbatim>\<open>grouped_count\<close> on the same object returns 2 and
  \<^verbatim>\<open>grouped_slice(1, 1)\<close> pages by the two new entries, so the counts were computed
  again. Only \<^verbatim>\<open>grouped_count\<close> keeps the entries: called first on the new object, it
  leaves the three entries in \<^verbatim>\<open>_counts\<close>, and the same later calls return 3 and page
  by the kept entries. The same holds of both query sets.
\<close>

theorem grouped_counts_requeried:
  "counts_memo (snd (MappingQuerySet_grouped_slice [release_old, release_new]
        example_queryset 1 1)) = Some Unevaluated
   \<and> map total (counts_rows example_queryset) = [3, 2, 5]
   \<and> fst (MappingQuerySet_grouped_count
        ((snd (MappingQuerySet_grouped_slice [release_old, release_new] example_queryset 1 1))
           \<lparr>rows := drop 3 (rows example_queryset)\<rparr>)) = 2
   \<and> map total (counts_rows
        ((snd (MappingQuerySet_grouped_slice [release_old, release_new] example_queryset 1 1))
           \<lparr>rows := drop 3 (rows example_queryset)\<rparr>)) = [2, 5]
   \<and> map total (counts_rows
        ((snd (MappingQuerySet_grouped_count example_queryset))
           \<lparr>rows := drop 3 (rows example_queryset)\<rparr>)) = [3, 2, 5]
   \<and> fst (MappingQuerySet_grouped_count
        ((snd (MappingQuerySet_grouped_count example_queryset))
           \<lparr>rows := drop 3 (rows example_queryset)\<rparr>)) = 3
   \<and> view_counts (snd (MappingViewQuerySet_grouped_slice example_view_queryset 1 1)) =
        Some Unevaluated
   \<and> map total (view_counts_rows example_view_queryset) = [3, 2, 5]
   \<and> fst (MappingViewQuerySet_grouped_count
        ((snd (MappingViewQuerySet_grouped_slice example_view_queryset 1 1))
           \<lparr>view_rows := drop 3 (view_rows example_view_queryset)\<rparr>)) = 2
   \<and> map total (view_counts_rows
        ((snd (MappingViewQuerySet_grouped_slice example_view_queryset 1 1))
           \<lparr>view_rows := drop 3 (view_rows example_view_queryset)\<rparr>)) = [2, 5]
   \<and> map total (view_counts_rows
        ((snd (MappingViewQuerySet_grouped_count example_view_queryset))
           \<lparr>view_rows := drop 3 (view_rows example_view_queryset)\<rparr>)) = [3, 2, 5]
   \<and> fst (MappingViewQuerySet_grouped_count
        ((snd (MappingViewQuerySet_grouped_count example_view_queryset))
           \<lparr>view_rows := drop 3 (view_rows example_view_queryset)\<rparr>)) = 3"
  by code_simp

section \<open>Empty results\<close>

lemma spec_row_count_empty:
  assumes "int (length counts) \<le> offset \<or> limit = 0"
  shows "spec_row_count counts offset limit = 0"
  using assms by (auto simp: spec_row_count_def)

lemma view_grouped_slice_empty:
  assumes "0 \<le> offset" "0 \<le> limit"
    and "int (length (view_counts_rows vqs)) \<le> offset \<or> limit = 0"
  shows "fst (MappingViewQuerySet_grouped_slice vqs offset limit) = Inr []"
  by (simp add: view_grouped_slice_nonneg[OF assms(1,2)] spec_row_count_empty[OF assms(3)]
      view_group_rows_def)

lemma grouped_slice_empty:
  assumes "0 \<le> offset" "0 \<le> limit"
    and "int (length (counts_rows qs)) \<le> offset \<or> limit = 0"
  shows "fst (MappingQuerySet_grouped_slice objs qs offset limit) = Inr []"
  by (simp add: grouped_slice_nonneg[OF assms(1,2)] spec_row_count_empty[OF assms(3)])

lemma view_empty_rowset_counts:
  "view_counts_rows (vqs\<lparr>view_rows := [], view_counts := None\<rparr>) = []"
  by (simp add: view_counts_rows_def view_counts_query_def order_by_desc_def)

lemma empty_rowset_counts:
  "counts_rows (qs\<lparr>rows := [], counts_memo := None\<rparr>) = []"
  by (simp add: counts_rows_def counts_query_def order_by_asc_def join_mapping_history_def)

text \<open>
  Claim C8, as amended. For non-negative group offset and limit, \<^verbatim>\<open>grouped_slice\<close> of
  either query set returns an empty mapping, and does not raise, when the offset is at
  least the number of groups or when the limit is 0. On an empty rowset (a query object
  with no counts yet) \<^verbatim>\<open>grouped_count\<close> returns 0, \<^verbatim>\<open>grouped_slice\<close> returns an empty
  mapping, the list-valued facet methods (statuses, species, chromosomes, types) return
  empty lists, \<^verbatim>\<open>divergences\<close> returns the three counts 0, 0, 0 and \<^verbatim>\<open>has_patches\<close>
  returns False; none of them raises.
\<close>

theorem grouped_slice_empty_cases:
  assumes "0 \<le> offset" and "0 \<le> limit"
  shows
   "(int (length (view_counts_rows vqs)) \<le> offset \<or> limit = 0 \<longrightarrow>
       fst (MappingViewQuerySet_grouped_slice vqs offset limit) = Inr [])
    \<and> (int (length (counts_rows qs)) \<le> offset \<or> limit = 0 \<longrightarrow>
       fst (MappingQuerySet_grouped_slice objs qs offset limit) = Inr [])
    \<and> fst (MappingViewQuerySet_grouped_count (vqs\<lparr>view_rows := [], view_counts := None\<rparr>)) = 0
    \<and> fst (MappingViewQuerySet_grouped_slice (vqs\<lparr>view_rows := [], view_counts := None\<rparr>)
          offset limit) = Inr []
    \<and> MappingViewQuerySet_statuses (vqs\<lparr>view_rows := [], view_counts := None\<rparr>) = []
    \<and> MappingViewQuerySet_species species_objects
          (vqs\<lparr>view_rows := [], view_counts := None\<rparr>) = Inr []
    \<and> MappingViewQuerySet_chromosomes (vqs\<lparr>view_rows := [], view_counts := None\<rparr>) = Inr []
    \<and> MappingViewQuerySet_types (vqs\<lparr>view_rows := [], view_counts := None\<rparr>) = []
    \<and> MappingViewQuerySet_divergences (vqs\<lparr>view_rows := [], view_counts := None\<rparr>) = [0, 0, 0]
    \<and> \<not> MappingViewQuerySet_has_patches (vqs\<lparr>view_rows := [], view_counts := None\<rparr>)
    \<and> fst (MappingQuerySet_grouped_count (qs\<lparr>rows := [], counts_memo := None\<rparr>)) = 0
    \<and> fst (MappingQuerySet_grouped_slice objs (qs\<lparr>rows := [], counts_memo := None\<rparr>)
          offset limit) = Inr []
    \<and> MappingQuerySet_statuses (qs\<lparr>rows := [], counts_memo := None\<rparr>) = []
    \<and> MappingQuerySet_species (qs\<lparr>rows := [], counts_memo := None\<rparr>) = []
    \<and> MappingQuerySet_chromosomes (qs\<lparr>rows := [], counts_memo := None\<rparr>) = Inr []
    \<and> MappingQuerySet_divergences (qs\<lparr>rows := [], counts_memo := None\<rparr>) = [0, 0, 0]"
proof -
  have v: "fst (MappingViewQuerySet_grouped_slice (vqs\<lparr>view_rows := [], view_counts := None\<rparr>)
          offset limit) = Inr []"
    by (rule view_grouped_slice_empty[OF assms]) (simp add: view_empty_rowset_counts assms)
  have n: "fst (MappingQuerySet_grouped_slice objs (qs\<lparr>rows := [], counts_memo := None\<rparr>)
          offset limit) = Inr []"
    by (rule grouped_slice_empty[OF assms]) (simp add: empty_rowset_counts assms)
  have vc: "fst (MappingViewQuerySet_grouped_count (vqs\<lparr>view_rows := [], view_counts := None\<rparr>)) = 0"
    by (simp add: view_grouped_count_memo view_empty_rowset_counts)
  have nc: "fst (MappingQuerySet_grouped_count (qs\<lparr>rows := [], counts_memo := None\<rparr>)) = 0"
    by (simp add: grouped_count_memo empty_rowset_counts)
  show ?thesis
    using view_grouped_slice_empty[OF assms, of vqs] grouped_slice_empty[OF assms, of qs objs]
      v n vc nc
    by (simp add: MappingViewQuerySet_statuses_def MappingViewQuerySet_species_def
        MappingViewQuerySet_chromosomes_def MappingViewQuerySet_types_def
        MappingViewQuerySet_divergences_def MappingViewQuerySet_has_patches_def
        MappingQuerySet_statuses_def MappingQuerySet_species_def MappingQuerySet_chromosomes_def
        MappingQuerySet_divergences_def sorted_py_def List.map_filter_simps)
qed

theorem grouped_slice_empty_cases_witness:
  "(0::int) \<le> 3 \<and> (0::int) \<le> 1
   \<and> int (length (view_counts_rows example_view_queryset)) \<le> 3
   \<and> fst (MappingViewQuerySet_grouped_slice example_view_queryset 3 1) = Inr []
   \<and> int (length (counts_rows example_queryset)) \<le> 3
   \<and> fst (MappingQuerySet_grouped_slice [release_old, release_new] example_queryset 3 1) = Inr []"
proof -
  have h3: "(0::int) \<le> 3" and h1: "(0::int) \<le> 1" by simp_all
  have a: "int (length (view_counts_rows example_view_queryset)) \<le> 3"
    by code_simp
  have b: "int (length (counts_rows example_queryset)) \<le> 3"
    by code_simp
  note t = grouped_slice_empty_cases[OF h3 h1, of example_view_queryset example_queryset
      "[release_old, release_new]"]
  note r1 = t[THEN conjunct1, rule_format, OF disjI1, OF a]
  note r2 = t[THEN conjunct2, THEN conjunct1, rule_format, OF disjI1, OF b]
  show ?thesis by (intro conjI) (rule h3 h1 a b r1 r2)+
qed

theorem grouped_slice_negative_offset_counterexample:
  "fst (MappingViewQuerySet_grouped_slice (view_queryset []) (- 1) 0) = Inl AssertionError
   \<and> fst (MappingQuerySet_grouped_slice [] (queryset []) (- 1) 0) = Inl AssertionError
   \<and> MappingViewQuerySet_divergences (view_queryset []) = [0, 0, 0]
   \<and> MappingQuerySet_divergences (queryset []) = [0, 0, 0]"
  by code_simp

section \<open>The group of rows without a group key\<close>

lemma view_null_group_counted:
  assumes "None \<in> set (map view_grouping_id (view_rows qs))"
  shows "\<lparr>counts_grouping_id = None,
          total = length (filter (\<lambda>r. view_grouping_id r = None) (view_rows qs))\<rparr>
         \<in> set (view_counts_query qs)"
proof -
  have "None \<in> set (order_by_desc (view_nulls_largest qs) (\<lambda>g. g)
          (remdups (map view_grouping_id (view_rows qs))))"
    using assms by (simp add: order_by_desc_def)
  then show ?thesis
    unfolding view_counts_query_eq by force
qed

lemma null_group_total_zero:
  assumes "c \<in> set (counts_query qs)" and "counts_grouping_id c = None"
  shows "total c = 0"
  using assms by (auto simp: counts_query_eq)

text \<open>
  Claim C4 on the code. In the denormalised form the group of the rows without a group key
  has the number of those rows as its total. In the normalised form,
  \<^verbatim>\<open>Count('mapping_history__grouping_id')\<close> counts the non-NULL values of the column, so
  the total of that group is 0: for the one Mapping whose history entry has no group key,
  the counts hold the entry of the NULL key with total 0 although one row has that key, and
  \<^verbatim>\<open>grouped_slice(0, 1)\<close> fetches no row and returns an empty mapping, where the
  denormalised form counts 1 and returns the group.
\<close>

theorem null_group_total:
  "counts_rows null_group_queryset = [\<lparr>counts_grouping_id = None, total = 0\<rparr>]
   \<and> length (filter (\<lambda>j. snd j = None) (join_mapping_history (rows null_group_queryset))) = 1
   \<and> fst (MappingQuerySet_grouped_count null_group_queryset) = 1
   \<and> fst (MappingQuerySet_grouped_slice [release_old, release_new] null_group_queryset 0 1) =
       Inr []
   \<and> view_counts_rows null_group_view_queryset = [\<lparr>counts_grouping_id = None, total = 1\<rparr>]
   \<and> fst (MappingViewQuerySet_grouped_slice null_group_view_queryset 0 1) =
       Inr [(None, [view_row 1 (Some 7) None])]"
  by code_simp

section \<open>Divergence buckets\<close>

lemma bucket_count_split:
  "bucket_count (\<lambda>d. d = 0) ds + bucket_count (\<lambda>d. 0 < d \<and> d \<le> 5) ds
     + bucket_count (\<lambda>d. 5 < d) ds = bucket_count (\<lambda>d. 0 \<le> d) ds"
  by (induction ds) (auto simp: bucket_count_def split: option.splits)

lemma divergences_buckets_normalised:
  "MappingQuerySet_divergences qs =
     [bucket_count (\<lambda>d. d = 0) (map alignment_difference (rows qs)),
      bucket_count (\<lambda>d. 0 < d \<and> d \<le> 5) (map alignment_difference (rows qs)),
      bucket_count (\<lambda>d. 5 < d) (map alignment_difference (rows qs))]"
  by (simp add: MappingQuerySet_divergences_def bucket_count_def Let_def filter_map comp_def)

lemma divergences_buckets_view:
  "MappingViewQuerySet_divergences qs =
     [bucket_count (\<lambda>d. d = 0) (map view_alignment_difference (view_rows qs)),
      bucket_count (\<lambda>d. 0 < d \<and> d \<le> 5) (map view_alignment_difference (view_rows qs)),
      bucket_count (\<lambda>d. 5 < d) (map view_alignment_difference (view_rows qs))]"
  by (simp add: MappingViewQuerySet_divergences_def bucket_count_def Let_def filter_map comp_def)

text \<open>
  Claim C7, as amended. \<^verbatim>\<open>divergences()\<close> of either query set returns the three counts
  of the rows whose alignment difference is 0, greater than 0 and at most 5, and greater
  than 5. A NULL difference falls in no bucket, and neither does a negative one: the three
  counts add up to the number of rows with a non-NULL, non-negative difference. The
  differences 0, 0, 3, 7, NULL give the counts 2, 1, 1.
\<close>

theorem divergences_buckets:
  "MappingQuerySet_divergences qs =
     [bucket_count (\<lambda>d. d = 0) (map alignment_difference (rows qs)),
      bucket_count (\<lambda>d. 0 < d \<and> d \<le> 5) (map alignment_difference (rows qs)),
      bucket_count (\<lambda>d. 5 < d) (map alignment_difference (rows qs))]
   \<and> sum_list (MappingQuerySet_divergences qs) =
       bucket_count (\<lambda>d. 0 \<le> d) (map alignment_difference (rows qs))
   \<and> (map alignment_difference (rows qs) = [Some 0, Some 0, Some 3, Some 7, None]
        \<longrightarrow> MappingQuerySet_divergences qs = [2, 1, 1])
   \<and> MappingViewQuerySet_divergences vqs =
     [bucket_count (\<lambda>d. d = 0) (map view_alignment_difference (view_rows vqs)),
      bucket_count (\<lambda>d. 0 < d \<and> d \<le> 5) (map view_alignment_difference (view_rows vqs)),
      bucket_count (\<lambda>d. 5 < d) (map view_alignment_difference (view_rows vqs))]
   \<and> sum_list (MappingViewQuerySet_divergences vqs) =
       bucket_count (\<lambda>d. 0 \<le> d) (map view_alignment_difference (view_rows vqs))
   \<and> (map view_alignment_difference (view_rows vqs) = [Some 0, Some 0, Some 3, Some 7, None]
        \<longrightarrow> MappingViewQuerySet_divergences vqs = [2, 1, 1])"
proof -
  have n: "sum_list (MappingQuerySet_divergences qs) =
       bucket_count (\<lambda>d. 0 \<le> d) (map alignment_difference (rows qs))"
    using bucket_count_split[of "map alignment_difference (rows qs)"]
    by (simp add: divergences_buckets_normalised)
  have v: "sum_list (MappingViewQuerySet_divergences vqs) =
       bucket_count (\<lambda>d. 0 \<le> d) (map view_alignment_difference (view_rows vqs))"
    using bucket_count_split[of "map view_alignment_difference (view_rows vqs)"]
    by (simp add: divergences_buckets_view)
  have en: "map alignment_difference (rows qs) = [Some 0, Some 0, Some 3, Some 7, None]
        \<longrightarrow> MappingQuerySet_divergences qs = [2, 1, 1]"
    by (simp add: divergences_buckets_normalised bucket_count_def)
  have ev: "map view_alignment_difference (view_rows vqs) = [Some 0, Some 0, Some 3, Some 7, None]
        \<longrightarrow> MappingViewQuerySet_divergences vqs = [2, 1, 1]"
    by (simp add: divergences_buckets_view bucket_count_def)
  show ?thesis
    by (intro conjI) (rule divergences_buckets_normalised n en divergences_buckets_view v ev)+
qed

theorem divergences_buckets_witness:
  "map alignment_difference (rows (difference_queryset [Some 0, Some 0, Some 3, Some 7, None])) =
     [Some 0, Some 0, Some 3, Some 7, None]
   \<and> MappingQuerySet_divergences (difference_queryset [Some 0, Some 0, Some 3, Some 7, None]) =
       [2, 1, 1]
   \<and> map view_alignment_difference
       (view_rows (difference_view_queryset [Some 0, Some 0, Some 3, Some 7, None])) =
     [Some 0, Some 0, Some 3, Some 7, None]
   \<and> MappingViewQuerySet_divergences
       (difference_view_queryset [Some 0, Some 0, Some 3, Some 7, None]) = [2, 1, 1]"
proof -
  have a: "map alignment_difference (rows (difference_queryset [Some 0, Some 0, Some 3, Some 7, None])) =
     [Some 0, Some 0, Some 3, Some 7, None]"
    by (simp add: difference_queryset_def queryset_def mapping_row_def)
  have b: "map view_alignment_difference
       (view_rows (difference_view_queryset [Some 0, Some 0, Some 3, Some 7, None])) =
     [Some 0, Some 0, Some 3, Some 7, None]"
    by (simp add: difference_view_queryset_def view_queryset_def view_row_def)
  note t = divergences_buckets[of "difference_queryset [Some 0, Some 0, Some 3, Some 7, None]"
        "difference_view_queryset [Some 0, Some 0, Some 3, Some 7, None]"]
  note n = t[THEN conjunct2, THEN conjunct2, THEN conjunct1, rule_format, OF a]
  note v = t[THEN conjunct2, THEN conjunct2, THEN conjunct2, THEN conjunct2, THEN conjunct2,
      rule_format, OF b]
  show ?thesis
    by (intro conjI) (rule a b n v)+
qed

theorem divergences_negative_counterexample:
  "sum_list (MappingQuerySet_divergences (difference_queryset [Some (- 1)])) \<noteq>
     length (filter (\<lambda>r. alignment_difference r \<noteq> None) (rows (difference_queryset [Some (- 1)])))"
  by (simp add: MappingQuerySet_divergences_def difference_queryset_def queryset_def
      mapping_row_def)

section \<open>Vocabulary lookups\<close>

lemma map_of_dict_setitem: "map_of (dict_setitem k v d) = (map_of d)(k \<mapsto> v)"
  by (induction d) (auto simp: fun_upd_twist)

lemma map_of_fold_dict_setitem:
  "map_of (fold (\<lambda>entry entries. dict_setitem (fst entry) (snd entry) entries) objects d) =
     map_of d ++ map_of (rev objects)"
proof (induction objects arbitrary: d)
  case Nil
  then show ?case by simp
next
  case (Cons e objects)
  show ?case
    by (rule ext, cases e)
       (simp add: Cons.IH map_of_dict_setitem map_add_def split: option.splits)
qed

lemma map_of_load_vocabulary: "map_of (load_vocabulary objects) = map_of (rev objects)"
  by (simp add: load_vocabulary_def map_of_fold_dict_setitem)

lemma lookup_absent:
  assumes "map_of (vocabulary objects cache) identity = None"
  shows "Mapping_entry_type objects cache identity = (Inl KeyError, vocabulary objects cache)"
    and "Mapping_status_type objects cache identity = (Inl KeyError, vocabulary objects cache)"
    and "MappingView_entry_description objects cache identity =
           (Inr None, vocabulary objects cache)"
    and "MappingView_status_description objects cache identity =
           (Inr None, vocabulary objects cache)"
  using assms
  by (simp_all add: Mapping_entry_type_def Mapping_status_type_def
      MappingView_entry_description_def MappingView_status_description_def
      vocabulary_def dict_getitem_def Let_def)

lemma lookup_present:
  assumes "map_of (vocabulary objects cache) identity = Some d"
  shows "Mapping_entry_type objects cache identity = (Inr d, vocabulary objects cache)"
    and "Mapping_status_type objects cache identity = (Inr d, vocabulary objects cache)"
    and "MappingView_entry_description objects cache identity =
           (Inr (Some d), vocabulary objects cache)"
    and "MappingView_status_description objects cache identity =
           (Inr (Some d), vocabulary objects cache)"
  using assms
  by (simp_all add: Mapping_entry_type_def Mapping_status_type_def
      MappingView_entry_description_def MappingView_status_description_def
      vocabulary_def dict_getitem_def Let_def)

text \<open>
  Claim C10. The four vocabulary lookups read the class-level map, loaded from the
  vocabulary table when it is empty and kept as it is otherwise. For an identity that is
  not in the map, \<^verbatim>\<open>Mapping.entry_type\<close> and \<^verbatim>\<open>Mapping.status_type\<close> raise
  \<^verbatim>\<open>KeyError\<close> while \<^verbatim>\<open>MappingView.entry_description\<close> and
  \<^verbatim>\<open>MappingView.status_description\<close> return \<^verbatim>\<open>None\<close>; for an identity in the map all
  four return the stored description. Each call leaves the map it read as the class-level
  map; a map loaded from the table holds, for each id, the description of the last row
  with that id.
\<close>

theorem vocabulary_lookup:
  "(map_of (vocabulary entry_objects entry_cache) identity = None \<longrightarrow>
      Mapping_entry_type entry_objects entry_cache identity =
        (Inl KeyError, vocabulary entry_objects entry_cache)
      \<and> MappingView_entry_description entry_objects entry_cache identity =
        (Inr None, vocabulary entry_objects entry_cache))
   \<and> (map_of (vocabulary status_objects status_cache) identity = None \<longrightarrow>
      Mapping_status_type status_objects status_cache identity =
        (Inl KeyError, vocabulary status_objects status_cache)
      \<and> MappingView_status_description status_objects status_cache identity =
        (Inr None, vocabulary status_objects status_cache))
   \<and> (map_of (vocabulary entry_objects entry_cache) identity = Some d \<longrightarrow>
      Mapping_entry_type entry_objects entry_cache identity =
        (Inr d, vocabulary entry_objects entry_cache)
      \<and> MappingView_entry_description entry_objects entry_cache identity =
        (Inr (Some d), vocabulary entry_objects entry_cache))
   \<and> (map_of (vocabulary status_objects status_cache) identity = Some d \<longrightarrow>
      Mapping_status_type status_objects status_cache identity =
        (Inr d, vocabulary status_objects status_cache)
      \<and> MappingView_status_description status_objects status_cache identity =
        (Inr (Some d), vocabulary status_objects status_cache))
   \<and> map_of (vocabulary entry_objects []) = map_of (rev entry_objects)
   \<and> (entry_cache \<noteq> [] \<longrightarrow> vocabulary entry_objects entry_cache = entry_cache)"
  by (intro conjI impI)
     (simp_all add: lookup_absent lookup_present,
      simp_all add: vocabulary_def map_of_load_vocabulary)

theorem vocabulary_lookup_witness:
  "map_of (vocabulary example_vocabulary []) 9 = None
   \<and> Mapping_entry_type example_vocabulary [] 9 = (Inl KeyError, example_vocabulary)
   \<and> MappingView_entry_description example_vocabulary [] 9 = (Inr None, example_vocabulary)
   \<and> Mapping_status_type example_vocabulary [] 9 = (Inl KeyError, example_vocabulary)
   \<and> MappingView_status_description example_vocabulary [] 9 = (Inr None, example_vocabulary)
   \<and> map_of (vocabulary example_vocabulary example_vocabulary) 3 = Some ''TrEMBL''
   \<and> Mapping_entry_type example_vocabulary example_vocabulary 3 =
       (Inr ''TrEMBL'', example_vocabulary)
   \<and> MappingView_entry_description example_vocabulary example_vocabulary 3 =
       (Inr (Some ''TrEMBL''), example_vocabulary)
   \<and> Mapping_status_type example_vocabulary example_vocabulary 3 =
       (Inr ''TrEMBL'', example_vocabulary)
   \<and> MappingView_status_description example_vocabulary example_vocabulary 3 =
       (Inr (Some ''TrEMBL''), example_vocabulary)"
proof -
  have v: "vocabulary example_vocabulary [] = example_vocabulary"
    by (simp add: vocabulary_def load_vocabulary_def example_vocabulary_def)
  have w: "vocabulary example_vocabulary example_vocabulary = example_vocabulary"
    by (simp add: vocabulary_def example_vocabulary_def)
  have a: "map_of (vocabulary example_vocabulary []) 9 = None"
    unfolding v by (simp add: example_vocabulary_def)
  have p: "map_of (vocabulary example_vocabulary example_vocabulary) 3 = Some ''TrEMBL''"
    unfolding w by (simp add: example_vocabulary_def)
  note t = vocabulary_lookup[of example_vocabulary "[]" 9 example_vocabulary "[]" "''TrEMBL''"]
  note u = vocabulary_lookup[of example_vocabulary example_vocabulary 3 example_vocabulary
      example_vocabulary "''TrEMBL''"]
  note t1 = t[THEN conjunct1, rule_format, OF a, unfolded v]
  note t2 = t[THEN conjunct2, THEN conjunct1, rule_format, OF a, unfolded v]
  note u1 = u[THEN conjunct2, THEN conjunct2, THEN conjunct1, rule_format, OF p, unfolded w]
  note u2 = u[THEN conjunct2, THEN conjunct2, THEN conjunct2, THEN conjunct1, rule_format, OF p,
      unfolded w]
  show ?thesis
    by (intro conjI)
       (rule a p t1[THEN conjunct1] t1[THEN conjunct2] t2[THEN conjunct1] t2[THEN conjunct2]
          u1[THEN conjunct1] u1[THEN conjunct2] u2[THEN conjunct1] u2[THEN conjunct2])+
qed

section \<open>Chromosome lists\<close>

lemma set_map_filter_id: "set (List.map_filter (\<lambda>x. x) xs) = {c. Some c \<in> set xs}"
  by (induction xs) (auto simp: List.map_filter_simps split: option.splits)

lemma distinct_map_filter_id: "distinct xs \<Longrightarrow> distinct (List.map_filter (\<lambda>x. x) xs)"
  by (induction xs) (auto simp: List.map_filter_simps set_map_filter_id split: option.splits)

lemma sorted_py_strings:
  assumes "None \<notin> set xs" "distinct xs"
  shows "\<exists>cs. sorted_py xs = Inr (map Some cs) \<and> sorted cs \<and> distinct cs
            \<and> set cs = {c. Some c \<in> set xs}"
  using assms
  by (intro exI[of _ "sort (List.map_filter (\<lambda>x. x) xs)"])
     (simp add: sorted_py_def set_map_filter_id distinct_map_filter_id)

lemma distinct_single_None:
  assumes "distinct xs"
  shows "(None \<in> set xs \<and> length xs < 2) = (set xs = {None})"
proof
  assume a: "None \<in> set xs \<and> length xs < 2"
  then obtain y where "xs = [y]" by (cases xs; cases "tl xs") auto
  with a show "set xs = {None}" by simp
next
  assume s: "set xs = {None}"
  have "card (set xs) = length xs" using assms by (simp add: distinct_card)
  with s show "None \<in> set xs \<and> length xs < 2" by simp
qed

lemma sorted_py_returns:
  assumes "distinct xs"
  shows "(\<exists>ys. sorted_py xs = Inr ys) = (None \<notin> set xs \<or> set xs = {None})"
  using distinct_single_None[OF assms] by (auto simp: sorted_py_def)

lemma sorted_py_only_None:
  assumes "distinct xs" "set xs = {None}"
  shows "sorted_py xs = Inr [None]"
proof -
  have "None \<in> set xs \<and> length xs < 2" using distinct_single_None[OF assms(1)] assms(2) by simp
  then obtain y where "xs = [y]" by (cases xs; cases "tl xs") auto
  with assms(2) show ?thesis by (simp add: sorted_py_def)
qed

lemma sorted_py_raises:
  assumes "distinct xs" "None \<in> set xs" "set xs \<noteq> {None}"
  shows "sorted_py xs = Inl TypeError"
  using distinct_single_None[OF assms(1)] assms(2,3) by (auto simp: sorted_py_def)

text \<open>
  Claim C9, as amended. \<^verbatim>\<open>chromosomes()\<close> of the denormalised form drops NULL and empty
  labels before sorting and always returns the sorted list of the distinct labels left.
  \<^verbatim>\<open>chromosomes()\<close> of the normalised form sorts every distinct value, NULL included: it
  returns normally exactly when no distinct value is NULL or NULL is the only distinct
  value (a list of one element is sorted without a comparison), returning the sorted labels
  in the first case and the list of the one NULL in the second; with NULL beside another
  value the sort raises \<^verbatim>\<open>TypeError\<close>.
\<close>

theorem chromosomes_null_handling:
  "(\<exists>cs. MappingViewQuerySet_chromosomes vqs = Inr (map Some cs) \<and> sorted cs \<and> distinct cs
        \<and> set cs = {c. c \<noteq> [] \<and> Some c \<in> set (map view_chromosome (view_rows vqs))})
   \<and> ((\<exists>ys. MappingQuerySet_chromosomes qs = Inr ys) =
        (None \<notin> set (map chromosome (rows qs)) \<or> set (map chromosome (rows qs)) = {None}))
   \<and> (None \<notin> set (map chromosome (rows qs)) \<longrightarrow>
        (\<exists>cs. MappingQuerySet_chromosomes qs = Inr (map Some cs) \<and> sorted cs \<and> distinct cs
           \<and> set cs = {c. Some c \<in> set (map chromosome (rows qs))}))
   \<and> (set (map chromosome (rows qs)) = {None} \<longrightarrow> MappingQuerySet_chromosomes qs = Inr [None])
   \<and> (None \<in> set (map chromosome (rows qs)) \<and> set (map chromosome (rows qs)) \<noteq> {None} \<longrightarrow>
        MappingQuerySet_chromosomes qs = Inl TypeError)"
proof -
  let ?v = "filter truthy (remdups (map view_chromosome (view_rows vqs)))"
  have "None \<notin> set ?v" "distinct ?v" by (auto simp: truthy_def)
  from sorted_py_strings[OF this]
  have a: "\<exists>cs. MappingViewQuerySet_chromosomes vqs = Inr (map Some cs) \<and> sorted cs \<and> distinct cs
        \<and> set cs = {c. c \<noteq> [] \<and> Some c \<in> set (map view_chromosome (view_rows vqs))}"
    by (auto simp: MappingViewQuerySet_chromosomes_def truthy_def)
  let ?n = "remdups (map chromosome (rows qs))"
  have d: "distinct ?n" and s: "set ?n = set (map chromosome (rows qs))" by simp_all
  have b: "(\<exists>ys. MappingQuerySet_chromosomes qs = Inr ys) =
        (None \<notin> set (map chromosome (rows qs)) \<or> set (map chromosome (rows qs)) = {None})"
    using sorted_py_returns[OF d] unfolding s MappingQuerySet_chromosomes_def .
  have c: "None \<notin> set (map chromosome (rows qs)) \<longrightarrow>
        (\<exists>cs. MappingQuerySet_chromosomes qs = Inr (map Some cs) \<and> sorted cs \<and> distinct cs
           \<and> set cs = {c. Some c \<in> set (map chromosome (rows qs))})"
    using sorted_py_strings[of ?n] d unfolding s MappingQuerySet_chromosomes_def by blast
  have e: "set (map chromosome (rows qs)) = {None} \<longrightarrow> MappingQuerySet_chromosomes qs = Inr [None]"
    using sorted_py_only_None[OF d] unfolding s MappingQuerySet_chromosomes_def by blast
  have f: "None \<in> set (map chromosome (rows qs)) \<and> set (map chromosome (rows qs)) \<noteq> {None} \<longrightarrow>
        MappingQuerySet_chromosomes qs = Inl TypeError"
    using sorted_py_raises[OF d] unfolding s MappingQuerySet_chromosomes_def by blast
  show ?thesis by (intro conjI) (rule a b c e f)+
qed

theorem chromosomes_null_handling_witness:
  "None \<in> set (map chromosome (rows (chromosome_queryset [Some ''X'', None, Some ''2''])))
   \<and> set (map chromosome (rows (chromosome_queryset [Some ''X'', None, Some ''2'']))) \<noteq> {None}
   \<and> MappingQuerySet_chromosomes (chromosome_queryset [Some ''X'', None, Some ''2'']) =
       Inl TypeError"
proof -
  have m: "map chromosome (rows (chromosome_queryset [Some ''X'', None, Some ''2''])) =
      [Some ''X'', None, Some ''2'']"
    by (simp add: chromosome_queryset_def queryset_def mapping_row_def)
  have a: "None \<in> set (map chromosome (rows (chromosome_queryset [Some ''X'', None, Some ''2''])))"
    unfolding m by simp
  have b: "set (map chromosome (rows (chromosome_queryset [Some ''X'', None, Some ''2'']))) \<noteq> {None}"
    unfolding m by auto
  note t = chromosomes_null_handling[of _ "chromosome_queryset [Some ''X'', None, Some ''2'']"]
  note r = t[THEN conjunct2, THEN conjunct2, THEN conjunct2, THEN conjunct2, rule_format,
      OF conjI, OF a b]
  show ?thesis by (intro conjI) (rule a b r)+
qed

theorem chromosomes_only_null_counterexample:
  "MappingQuerySet_chromosomes (chromosome_queryset [None, None]) = Inr [None]
   \<and> None \<in> set (map chromosome (rows (chromosome_queryset [None, None])))"
  by (simp add: MappingQuerySet_chromosomes_def chromosome_queryset_def queryset_def
      mapping_row_def sorted_py_def)

lemma view_chromosomes_example:
  "MappingViewQuerySet_chromosomes
     (chromosome_view_queryset [Some ''X'', None, Some '''', Some ''2'', Some ''X'', Some ''10'']) =
   Inr [Some ''10'', Some ''2'', Some ''X'']"
  by code_simp

end
